theory Spec2Isabelle
  imports Complex_Main "HOL-Library.Sublist" "HOL-Library.Multiset"
begin

section \<open>Data model\<close>

text \<open>
  The catalog is the pandas frame \<^verbatim>\<open>INDEX.df\<close>: a list of rows addressed by position
  (\<^verbatim>\<open>df.iloc[i]\<close>). A row carries the columns of \<^verbatim>\<open>agent/models.py: Product\<close>.
  A Python string is the list of its code points, and a \<open>char\<close> is a code point below
  256 (Latin-1): \<^verbatim>\<open>str.lower\<close>, \<^verbatim>\<open>str.isalnum\<close> and \<^verbatim>\<open>str.isspace\<close> below are
  Python's on these code points. A Python float is a real number that is a double;
  the arithmetic on floats rounds, see the section on floating-point arithmetic.
\<close>

record product =
  pid :: string
  title :: string
  description :: string
  category :: string
  brand :: string
  price :: real
  currency :: string
  image_url :: string
  product_url :: "string option"
  tags :: string

record FilterSpec =
  f_brand :: "string option"
  f_category :: "string option"
  f_price_min :: "real option"
  f_price_max :: "real option"
  f_tags_contains :: "string option"

datatype error = IndexError | ReError | HTTPException

text \<open>
  Python truthiness of an \<^verbatim>\<open>Optional[str]\<close>: \<^verbatim>\<open>if f.brand:\<close> holds for a
  non-empty string only. This is what "the field is set" means everywhere in the code.
\<close>

fun truthy :: "string option \<Rightarrow> bool" where
  "truthy None = False"
| "truthy (Some s) = (s \<noteq> [])"

section \<open>Strings\<close>

text \<open>
  \<^verbatim>\<open>str.lower\<close> works code point by code point below 256: the capitals \<open>A\<close> to \<open>Z\<close>
  (65 to 90) and the accented capitals 192 to 214 and 216 to 222 move up by 32, every
  other code point stays.
\<close>

definition lower_char :: "char \<Rightarrow> char" where
  "lower_char c =
     (let n = (of_char c :: nat) in
      if (65 \<le> n \<and> n \<le> 90) \<or> (192 \<le> n \<and> n \<le> 214) \<or> (216 \<le> n \<and> n \<le> 222)
      then char_of (n + 32) else c)"

definition lower :: "string \<Rightarrow> string" where
  "lower s = map lower_char s"

text \<open>
  \<^verbatim>\<open>str.isalnum\<close> below 256: the digits, the letters, and of the upper half the
  letters (170, 181, 186, 192 to 214, 216 to 246, 248 to 255), the superscript digits
  (178, 179, 185) and the fractions (188 to 190).
\<close>

definition isalnum :: "char \<Rightarrow> bool" where
  "isalnum c = (let n = (of_char c :: nat) in
     (48 \<le> n \<and> n \<le> 57) \<or> (65 \<le> n \<and> n \<le> 90) \<or> (97 \<le> n \<and> n \<le> 122)
     \<or> n = 170 \<or> n = 178 \<or> n = 179 \<or> n = 181 \<or> n = 185 \<or> n = 186
     \<or> (188 \<le> n \<and> n \<le> 190) \<or> (192 \<le> n \<and> n \<le> 214) \<or> (216 \<le> n \<and> n \<le> 246)
     \<or> (248 \<le> n \<and> n \<le> 255))"

text \<open>
  \<^verbatim>\<open>str.isspace\<close> below 256, which is also what \<^verbatim>\<open>str.strip\<close> removes: 9 to 13,
  28 to 32, 133 (next line) and 160 (no-break space).
\<close>

definition isspace :: "char \<Rightarrow> bool" where
  "isspace c = (let n = (of_char c :: nat) in
     (9 \<le> n \<and> n \<le> 13) \<or> (28 \<le> n \<and> n \<le> 32) \<or> n = 133 \<or> n = 160)"

definition strip :: "string \<Rightarrow> string" where
  "strip s = rev (dropWhile isspace (rev (dropWhile isspace s)))"

text \<open>Python's \<^verbatim>\<open>a in b\<close> on strings: \<open>a\<close> occurs in \<open>b\<close> as a contiguous block.\<close>

fun py_in :: "string \<Rightarrow> string \<Rightarrow> bool" where
  "py_in a [] = (a = [])"
| "py_in a (c # cs) = (prefix a (c # cs) \<or> py_in a cs)"

text \<open>
  A slice \<^verbatim>\<open>xs[:k]\<close>: the first \<open>k\<close> elements, and for a negative \<open>k\<close> all but the
  last \<open>-k\<close>.
\<close>

definition py_take :: "int \<Rightarrow> 'a list \<Rightarrow> 'a list" where
  "py_take k xs = (if 0 \<le> k then take (nat k) xs else take (length xs - nat (- k)) xs)"

text \<open>
  \<^verbatim>\<open>list.sort(key=..., reverse=True)\<close>: CPython reverses the list, sorts it stably in
  ascending key order and reverses it again, so that equal keys keep their order.
\<close>

definition sort_reverse :: "('a \<Rightarrow> real) \<Rightarrow> 'a list \<Rightarrow> 'a list" where
  "sort_reverse key xs = rev (sort_key key (rev xs))"

section \<open>Floating-point arithmetic\<close>

text \<open>
  An operation on two doubles returns the double nearest to the exact result, and a
  literal such as \<^verbatim>\<open>0.05\<close> is the double nearest to it. The functions that compute with
  floats take this rounding as their argument \<open>rnd\<close>: \<^verbatim>\<open>a + b\<close> is \<open>rnd (a + b)\<close> and
  the literal \<^verbatim>\<open>c\<close> is \<open>rnd c\<close>. Comparisons of floats are exact.

  \<open>round_double\<close> is the rounding of IEEE 754 binary64, to the nearest double and to
  the even one of two nearest, for the doubles of the normal range: the magnitude is
  brought into a binade \<open>2^e \<le> a < 2^(e+1)\<close> and rounded to a multiple of \<open>2^(e-52)\<close>.
\<close>

definition round_half_even :: "real \<Rightarrow> int" where
  "round_half_even q =
     (let m = \<lfloor>q\<rfloor>; d = q - of_int m in
      if d < 1 / 2 then m else if 1 / 2 < d then m + 1 else if even m then m else m + 1)"

fun binade :: "nat \<Rightarrow> real \<Rightarrow> int \<Rightarrow> int" where
  "binade 0 a e = e"
| "binade (Suc n) a e =
     (if 2 \<le> a then binade n (a / 2) (e + 1)
      else if a < 1 then binade n (a * 2) (e - 1)
      else e)"

definition pow2 :: "int \<Rightarrow> real" where
  "pow2 e = (if 0 \<le> e then 2 ^ nat e else 1 / 2 ^ nat (- e))"

definition round_double :: "real \<Rightarrow> real" where
  "round_double x =
     (if x = 0 then 0
      else
        (let a = \<bar>x\<bar>; e = binade 1100 a 0; ulp = pow2 (e - 52);
             m = round_half_even (a / ulp)
         in sgn x * of_int m * ulp))"


section \<open>\<^verbatim>\<open>agent/tools.py: apply_filters\<close>\<close>

text \<open>
  \<^verbatim>\<open>Series.str.contains(pat, case=False, na=False)\<close> keeps pandas' default
  \<^verbatim>\<open>regex=True\<close>: the pattern is compiled with \<^verbatim>\<open>re.IGNORECASE\<close> and searched for
  in every cell. For a pattern made of ordinary characters and dots the search is
  written out below (\<open>.\<close> stands for any character but a newline, any other character
  for itself up to case). A pattern with another metacharacter is handed to
  \<open>re_compile\<close>, the regular-expression engine: \<open>None\<close> when the pattern does not
  compile (\<^verbatim>\<open>re.error\<close>), else the search predicate.
\<close>

definition re_meta :: "char \<Rightarrow> bool" where
  "re_meta c = ((of_char c :: nat) \<in> set [36, 40, 41, 42, 43, 46, 63, 91, 92, 93, 94, 123, 124, 125])"

fun re_match_here :: "string \<Rightarrow> string \<Rightarrow> bool" where
  "re_match_here [] s = True"
| "re_match_here (p # ps) [] = False"
| "re_match_here (p # ps) (c # cs) =
     ((if p = CHR ''.'' then c \<noteq> CHR 0x0A else lower_char p = lower_char c) \<and> re_match_here ps cs)"

fun re_search_dots :: "string \<Rightarrow> string \<Rightarrow> bool" where
  "re_search_dots p [] = (p = [])"
| "re_search_dots p (c # cs) = (re_match_here p (c # cs) \<or> re_search_dots p cs)"

definition str_contains ::
  "(string \<Rightarrow> (string \<Rightarrow> bool) option) \<Rightarrow> string \<Rightarrow> (string \<Rightarrow> bool) option" where
  "str_contains re_compile pat =
     (if list_all (\<lambda>c. c = CHR ''.'' \<or> \<not> re_meta c) pat then Some (re_search_dots pat)
      else re_compile pat)"

text \<open>
  \<^verbatim>\<open>
  def apply_filters(df, f):
      out = df
      if f.brand:
          out = out[out["brand"].str.lower() == f.brand.lower()]
      if f.category:
          out = out[out["category"].str.contains(f.category, case=False, na=False)]
      if f.price_min is not None:
          out = out[out["price"] >= float(f.price_min)]
      if f.price_max is not None:
          out = out[out["price"] <= float(f.price_max)]
      if f.tags_contains:
          out = out[out["tags"].str.contains(f.tags_contains, case=False, na=False)]
      return out
  \<close>
  A frame is a list of rows with their index labels (the positions in the catalog).
\<close>

type_synonym frame = "(nat \<times> product) list"

definition frame_of :: "product list \<Rightarrow> frame" where
  "frame_of df = zip [0..<length df] df"

definition filter_contains ::
  "(string \<Rightarrow> (string \<Rightarrow> bool) option) \<Rightarrow> string option \<Rightarrow> (product \<Rightarrow> string) \<Rightarrow> frame
    \<Rightarrow> error + frame" where
  "filter_contains re_compile pat col out =
     (if truthy pat then
        (case str_contains re_compile (the pat) of
           None \<Rightarrow> Inl ReError
         | Some m \<Rightarrow> Inr (filter (\<lambda>(i, r). m (col r)) out))
      else Inr out)"

definition apply_filters ::
  "(string \<Rightarrow> (string \<Rightarrow> bool) option) \<Rightarrow> frame \<Rightarrow> FilterSpec \<Rightarrow> error + frame" where
  "apply_filters re_compile df f =
     (let out = df;
          out = (if truthy (f_brand f)
                 then filter (\<lambda>(i, r). lower (brand r) = lower (the (f_brand f))) out else out)
      in case filter_contains re_compile (f_category f) category out of
           Inl e \<Rightarrow> Inl e
         | Inr out \<Rightarrow>
             (let out = (case f_price_min f of None \<Rightarrow> out
                         | Some lo \<Rightarrow> filter (\<lambda>(i, r). price r \<ge> lo) out);
                  out = (case f_price_max f of None \<Rightarrow> out
                         | Some hi \<Rightarrow> filter (\<lambda>(i, r). price r \<le> hi) out)
              in filter_contains re_compile (f_tags_contains f) tags out))"

section \<open>\<^verbatim>\<open>app.py: _pick_with_filters\<close>\<close>

text \<open>
  \<^verbatim>\<open>
  def norm(s):
      return ''.join(ch for ch in s.lower() if ch.isalnum() or ch.isspace()).strip()
  \<close>
\<close>

definition norm :: "string \<Rightarrow> string" where
  "norm s = strip (filter (\<lambda>ch. isalnum ch \<or> isspace ch) (lower s))"

definition dedup_key :: "product list \<Rightarrow> nat \<Rightarrow> string \<times> string" where
  "dedup_key df i = (norm (title (df ! i)), norm (brand (df ! i)))"

text \<open>
  \<^verbatim>\<open>
  def add_unique(seed, pool):
      seen_keys = { (norm(title(i)), norm(brand(i))) for i in seed }
      out = list(seed)
      for i in pool:
          if len(out) >= top_k: break
          key = (norm(title(i)), norm(brand(i)))
          if key in seen_keys: continue
          out.append(i)
          seen_keys.add(key)
      return out
  \<close>
  \<open>top_k\<close> is the parameter of the enclosing \<^verbatim>\<open>_pick_with_filters\<close>, a Python int.
\<close>

fun add_unique_loop ::
  "product list \<Rightarrow> int \<Rightarrow> (string \<times> string) set \<Rightarrow> nat list \<Rightarrow> nat list \<Rightarrow> nat list" where
  "add_unique_loop df top_k seen_keys out [] = out"
| "add_unique_loop df top_k seen_keys out (i # pool) =
     (if int (length out) \<ge> top_k then out
      else if dedup_key df i \<in> seen_keys then add_unique_loop df top_k seen_keys out pool
      else add_unique_loop df top_k (insert (dedup_key df i) seen_keys) (out @ [i]) pool)"

definition add_unique :: "product list \<Rightarrow> int \<Rightarrow> nat list \<Rightarrow> nat list \<Rightarrow> nat list" where
  "add_unique df top_k seed pool = add_unique_loop df top_k (set (map (dedup_key df) seed)) seed pool"

text \<open>
  \<^verbatim>\<open>
  def within_price_brand(i):
      row = df.iloc[i]
      price = float(row.get("price", 0.0))
      if filters.price_min is not None and price < float(filters.price_min): return False
      if filters.price_max is not None and price > float(filters.price_max): return False
      if filters.brand and str(row.get("brand","")).lower() != str(filters.brand).lower():
          return False
      return True
  \<close>
\<close>

definition within_price_brand :: "FilterSpec \<Rightarrow> product \<Rightarrow> bool" where
  "within_price_brand filters row =
     (if (case f_price_min filters of None \<Rightarrow> False | Some lo \<Rightarrow> price row < lo) then False
      else if (case f_price_max filters of None \<Rightarrow> False | Some hi \<Rightarrow> price row > hi) then False
      else if truthy (f_brand filters) \<and> lower (brand row) \<noteq> lower (the (f_brand filters)) then False
      else True)"

text \<open>
  Stage 1 (strict): \<^verbatim>\<open>allowed = apply_filters(df, filters)\<close>, then the candidates whose
  id is the id of an allowed row, de-duplicated by key.
\<close>

definition stage1 :: "product list \<Rightarrow> frame \<Rightarrow> nat list \<Rightarrow> int \<Rightarrow> nat list" where
  "stage1 df allowed cand_idxs top_k =
     (let allowed_ids = set (map (\<lambda>(i, r). pid r) allowed);
          primary_all = filter (\<lambda>i. pid (df ! i) \<in> allowed_ids) cand_idxs
      in add_unique df top_k [] primary_all)"

text \<open>
  Stage 2 (same category): \<^verbatim>\<open>if len(chosen) < top_k and filters.category\<close>, the
  candidates not yet chosen whose lower-cased category contains the lower-cased
  constraint and that are within price and brand.
\<close>

definition stage2 :: "product list \<Rightarrow> FilterSpec \<Rightarrow> nat list \<Rightarrow> int \<Rightarrow> nat list \<Rightarrow> nat list" where
  "stage2 df filters cand_idxs top_k chosen =
     (if int (length chosen) < top_k \<and> truthy (f_category filters) then
        (let cat = lower (the (f_category filters));
             cat_pool = filter (\<lambda>i. i \<notin> set chosen \<and> py_in cat (lower (category (df ! i)))
                                  \<and> within_price_brand filters (df ! i)) cand_idxs
         in add_unique df top_k chosen cat_pool)
      else chosen)"

text \<open>
  Stage 3 (any category): \<^verbatim>\<open>if len(chosen) < top_k and not filters.category\<close>, the
  candidates not yet chosen that are within price and brand.
\<close>

definition stage3 :: "product list \<Rightarrow> FilterSpec \<Rightarrow> nat list \<Rightarrow> int \<Rightarrow> nat list \<Rightarrow> nat list" where
  "stage3 df filters cand_idxs top_k chosen =
     (if int (length chosen) < top_k \<and> \<not> truthy (f_category filters) then
        (let fill_pool = filter (\<lambda>i. i \<notin> set chosen \<and> within_price_brand filters (df ! i)) cand_idxs
         in add_unique df top_k chosen fill_pool)
      else chosen)"

text \<open>
  The override: \<^verbatim>\<open>if len(chosen) < min_unique and len(cand_idxs) >= min_unique\<close>, then
  \<^verbatim>\<open>chosen = add_unique([], cand_idxs); chosen = chosen[: max(min_unique, top_k)]\<close>.
  \<open>min_unique\<close> is \<^verbatim>\<open>int(os.environ.get("MIN_UNIQUE_RESULTS", "2"))\<close>.
\<close>

definition override_fires :: "int \<Rightarrow> nat list \<Rightarrow> nat list \<Rightarrow> bool" where
  "override_fires min_unique cand_idxs chosen =
     (int (length chosen) < min_unique \<and> int (length cand_idxs) \<ge> min_unique)"

definition override :: "product list \<Rightarrow> int \<Rightarrow> int \<Rightarrow> nat list \<Rightarrow> nat list" where
  "override df min_unique top_k cand_idxs =
     py_take (max min_unique top_k) (add_unique df top_k [] cand_idxs)"

definition staged :: "product list \<Rightarrow> FilterSpec \<Rightarrow> frame \<Rightarrow> nat list \<Rightarrow> int \<Rightarrow> nat list" where
  "staged df filters allowed cand_idxs top_k =
     stage3 df filters cand_idxs top_k
       (stage2 df filters cand_idxs top_k (stage1 df allowed cand_idxs top_k))"

text \<open>
  The whole function. \<open>scored_list\<close> is the search result, pairs of a catalog position
  and a score. \<^verbatim>\<open>apply_filters\<close> may raise \<^verbatim>\<open>re.error\<close>; \<^verbatim>\<open>df.iloc[i]\<close>
  raises \<^verbatim>\<open>IndexError\<close> for a position outside the catalog, first met when
  \<^verbatim>\<open>primary_all\<close> is built, which visits every candidate. The writes to the
  \<^verbatim>\<open>trace\<close> dictionary do not influence the returned list and are left out.
\<close>

definition pick_with_filters ::
  "(string \<Rightarrow> (string \<Rightarrow> bool) option) \<Rightarrow> product list \<Rightarrow> int \<Rightarrow> (nat \<times> real) list \<Rightarrow> FilterSpec
    \<Rightarrow> int \<Rightarrow> error + nat list" where
  "pick_with_filters re_compile df min_unique scored_list filters top_k =
     (let cand_idxs = map fst scored_list
      in case apply_filters re_compile (frame_of df) filters of
           Inl e \<Rightarrow> Inl e
         | Inr allowed \<Rightarrow>
             if list_ex (\<lambda>i. i \<ge> length df) cand_idxs then Inl IndexError
             else
               (let chosen = staged df filters allowed cand_idxs top_k
                in if override_fires min_unique cand_idxs chosen
                   then Inr (override df min_unique top_k cand_idxs)
                   else Inr chosen))"

section \<open>\<^verbatim>\<open>app.py: chat\<close>, final de-duplication by id (lines 431-438)\<close>

text \<open>
  \<^verbatim>\<open>
  _seen = set(); _unique = []
  for p in products:
      if p.id in _seen: continue
      _seen.add(p.id)
      _unique.append(p)
  products = _unique
  \<close>
  The loop threads the pair \<open>(_seen, _unique)\<close>.
\<close>

fun dedup_loop :: "string set \<Rightarrow> product list \<Rightarrow> product list \<Rightarrow> product list" where
  "dedup_loop seen unique [] = unique"
| "dedup_loop seen unique (p # ps) =
     (if pid p \<in> seen then dedup_loop seen unique ps
      else dedup_loop (insert (pid p) seen) (unique @ [p]) ps)"

definition dedup_by_id :: "product list \<Rightarrow> product list" where
  "dedup_by_id products = dedup_loop {} [] products"

text \<open>The list the loop computes, written by recursion on the input.\<close>

fun first_by_id :: "string set \<Rightarrow> product list \<Rightarrow> product list" where
  "first_by_id seen [] = []"
| "first_by_id seen (p # ps) =
     (if pid p \<in> seen then first_by_id seen ps else p # first_by_id (insert (pid p) seen) ps)"

section \<open>\<^verbatim>\<open>app.py: _keyword_fallback\<close>\<close>

text \<open>
  \<^verbatim>\<open>
  text = (user_text or "").lower()
  tokens = [t for t in ''.join([c if c.isalnum() else ' ' for c in text]).split() if t]
  token_set = set(tokens)
  \<close>
  Every character that is not alphanumeric becomes a blank and the text is split at
  blanks: the tokens are the maximal alphanumeric runs. \<open>cur\<close> is the run being read.
  The set of tokens is kept as a list without repetitions.
\<close>

fun split_alnum :: "string \<Rightarrow> string \<Rightarrow> string list" where
  "split_alnum cur [] = (if cur = [] then [] else [cur])"
| "split_alnum cur (c # cs) =
     (if isalnum c then split_alnum (cur @ [c]) cs
      else if cur = [] then split_alnum [] cs
      else cur # split_alnum [] cs)"

definition token_set :: "string \<Rightarrow> string list" where
  "token_set text = remdups (split_alnum [] text)"

definition any_filter :: "FilterSpec \<Rightarrow> bool" where
  "any_filter f =
     (truthy (f_brand f) \<or> truthy (f_category f) \<or> f_price_min f \<noteq> None \<or> f_price_max f \<noteq> None
      \<or> truthy (f_tags_contains f))"

text \<open>
  The score of one row before the price bonus:
  \<^verbatim>\<open>
  s = 0.0
  if brand and brand in text: s += 5.0
  for tok in token_set:
      if tok and tok in tags: s += 2.0
  for tok in token_set:
      if tok and (tok in title or tok in desc): s += 1.0
  \<close>
\<close>

definition keyword_score :: "(real \<Rightarrow> real) \<Rightarrow> string \<Rightarrow> string list \<Rightarrow> product \<Rightarrow> real" where
  "keyword_score rnd text toks r =
     (let title' = lower (title r); desc = lower (description r); brand' = lower (brand r);
          tags' = lower (tags r);
          s = rnd 0;
          s = (if brand' \<noteq> [] \<and> py_in brand' text then rnd (s + rnd 5) else s);
          s = fold (\<lambda>tok s. if tok \<noteq> [] \<and> py_in tok tags' then rnd (s + rnd 2) else s) toks s;
          s = fold (\<lambda>tok s. if tok \<noteq> [] \<and> (py_in tok title' \<or> py_in tok desc)
                           then rnd (s + rnd 1) else s) toks s
      in s)"

text \<open>
  The rest of the loop body; \<open>None\<close> is a \<^verbatim>\<open>continue\<close> or a score that is not positive:
  \<^verbatim>\<open>
  if filters.price_min is not None and price < float(filters.price_min): continue
  if filters.price_max is not None and price > float(filters.price_max): continue
  if filters.price_max is not None:
      mx = float(filters.price_max)
      s += 1.5 * (price / max(mx, 1e-6))
  if filters.category:
      cat = str(filters.category).lower()
      if cat not in str(row.get('category','')).lower(): continue
  if s > 0: scores.append((idx, s))
  \<close>
\<close>

definition fallback_row ::
  "(real \<Rightarrow> real) \<Rightarrow> FilterSpec \<Rightarrow> string \<Rightarrow> string list \<Rightarrow> nat \<times> product \<Rightarrow> (nat \<times> real) option" where
  "fallback_row rnd filters text toks ir =
     (let idx = fst ir; r = snd ir; s = keyword_score rnd text toks r in
      if (case f_price_min filters of None \<Rightarrow> False | Some lo \<Rightarrow> price r < lo) then None
      else if (case f_price_max filters of None \<Rightarrow> False | Some hi \<Rightarrow> price r > hi) then None
      else
        (let s = (case f_price_max filters of None \<Rightarrow> s
                  | Some mx \<Rightarrow>
                      rnd (s + rnd (rnd (3 / 2) * rnd (price r / max mx (rnd (1 / 10 ^ 6))))))
         in if truthy (f_category filters)
               \<and> \<not> py_in (lower (the (f_category filters))) (lower (category r)) then None
            else if s > 0 then Some (idx, s) else None))"

text \<open>
  \<^verbatim>\<open>
  cand = apply_filters(df, filters) if any([...]) else df
  ...
  scores.sort(key=lambda x: x[1], reverse=True)
  return [i for i, _ in scores[:top_k]]
  \<close>
\<close>

definition keyword_fallback ::
  "(real \<Rightarrow> real) \<Rightarrow> (string \<Rightarrow> (string \<Rightarrow> bool) option) \<Rightarrow> product list \<Rightarrow> string
    \<Rightarrow> FilterSpec \<Rightarrow> int \<Rightarrow> error + nat list" where
  "keyword_fallback rnd re_compile df user_text filters top_k =
     (case (if any_filter filters then apply_filters re_compile (frame_of df) filters
            else Inr (frame_of df)) of
        Inl e \<Rightarrow> Inl e
      | Inr cand \<Rightarrow>
          (let text = lower user_text;
               toks = token_set text;
               scores = List.map_filter (fallback_row rnd filters text toks) cand
           in Inr (map fst (py_take top_k (sort_reverse snd scores)))))"

section \<open>\<^verbatim>\<open>app.py: chat\<close>, from the branches to the response (lines 315-442)\<close>

text \<open>
  What \<^verbatim>\<open>chat\<close> has at hand when it branches: the intent from \<^verbatim>\<open>classify_intent\<close>,
  whether the request carries an image that can be decoded, the result \<open>scored\<close> of the
  vector search of the branch, the text of the user, the merged filters
  \<^verbatim>\<open>final_filters\<close>, the filters \<^verbatim>\<open>strict_filters\<close> (with the category inferred from
  the image, if one was inferred) and \<^verbatim>\<open>req.top_k\<close>, the integer of the request as it
  was sent.
\<close>

datatype intent = IMAGE_AND_TEXT | IMAGE_SEARCH | TEXT_RECOMMEND | SMALLTALK

record turn =
  t_intent :: intent
  t_image_ok :: bool
  t_scored :: "(nat \<times> real) list"
  t_user_text :: string
  t_final_filters :: FilterSpec
  t_strict_filters :: FilterSpec
  t_top_k :: int

text \<open>
  \<^verbatim>\<open>
  allowed = apply_filters(INDEX.df, f)
  allowed_ids = set(allowed["id"].astype(str))
  products = [p for p in products if p.id in allowed_ids]
  \<close>
\<close>

definition prune ::
  "(string \<Rightarrow> (string \<Rightarrow> bool) option) \<Rightarrow> product list \<Rightarrow> FilterSpec \<Rightarrow> product list
    \<Rightarrow> error + product list" where
  "prune re_compile df f products =
     (case apply_filters re_compile (frame_of df) f of
        Inl e \<Rightarrow> Inl e
      | Inr allowed \<Rightarrow> Inr (filter (\<lambda>p. pid p \<in> set (map (\<lambda>(i, r). pid r) allowed)) products))"

text \<open>
  The branch \<^verbatim>\<open>IMAGE_AND_TEXT\<close>: the pipeline runs on \<^verbatim>\<open>strict_filters\<close> and the
  products are pruned by \<^verbatim>\<open>final_filters\<close> when one of its fields is set.
\<close>

definition image_and_text_products ::
  "(string \<Rightarrow> (string \<Rightarrow> bool) option) \<Rightarrow> product list \<Rightarrow> int \<Rightarrow> turn \<Rightarrow> error + product list" where
  "image_and_text_products re_compile df min_unique t =
     (case pick_with_filters re_compile df min_unique (t_scored t) (t_strict_filters t) (t_top_k t) of
        Inl e \<Rightarrow> Inl e
      | Inr chosen \<Rightarrow>
          (let products = map (\<lambda>i. df ! i) chosen in
           if any_filter (t_final_filters t) then prune re_compile df (t_final_filters t) products
           else Inr products))"

text \<open>
  The branch \<^verbatim>\<open>IMAGE_SEARCH\<close>: \<^verbatim>\<open>filters = strict_filters\<close>; the test before the
  pruning reads the tags of \<^verbatim>\<open>final_filters\<close>.
\<close>

definition image_search_products ::
  "(string \<Rightarrow> (string \<Rightarrow> bool) option) \<Rightarrow> product list \<Rightarrow> int \<Rightarrow> turn \<Rightarrow> error + product list" where
  "image_search_products re_compile df min_unique t =
     (let filters = t_strict_filters t in
      case pick_with_filters re_compile df min_unique (t_scored t) filters (t_top_k t) of
        Inl e \<Rightarrow> Inl e
      | Inr chosen \<Rightarrow>
          (let products = map (\<lambda>i. df ! i) chosen in
           if truthy (f_brand filters) \<or> truthy (f_category filters) \<or> f_price_min filters \<noteq> None
              \<or> f_price_max filters \<noteq> None \<or> truthy (f_tags_contains (t_final_filters t))
           then prune re_compile df filters products
           else Inr products))"

text \<open>
  The branch \<^verbatim>\<open>TEXT_RECOMMEND\<close>:
  \<^verbatim>\<open>
  filters = strict_filters
  chosen = _pick_with_filters(scored, filters, req.top_k)
  products = [Product(**INDEX.df.iloc[i].to_dict()) for i in chosen]
  if not products:
      fallback_idxs = _keyword_fallback(last_user_text, filters, req.top_k)
      if fallback_idxs:
          products = [Product(**INDEX.df.iloc[i].to_dict()) for i in fallback_idxs]
  if any([...]): (pruning by filters)
  \<close>
\<close>

definition text_recommend_products ::
  "(real \<Rightarrow> real) \<Rightarrow> (string \<Rightarrow> (string \<Rightarrow> bool) option) \<Rightarrow> product list \<Rightarrow> int \<Rightarrow> turn
    \<Rightarrow> error + product list" where
  "text_recommend_products rnd re_compile df min_unique t =
     (let filters = t_strict_filters t in
      case pick_with_filters re_compile df min_unique (t_scored t) filters (t_top_k t) of
        Inl e \<Rightarrow> Inl e
      | Inr chosen \<Rightarrow>
          (case (if chosen = []
                 then keyword_fallback rnd re_compile df (t_user_text t) filters (t_top_k t)
                 else Inr chosen) of
             Inl e \<Rightarrow> Inl e
           | Inr idxs \<Rightarrow>
               (let products = map (\<lambda>i. df ! i) idxs in
                if any_filter filters then prune re_compile df filters products
                else Inr products)))"

text \<open>
  The products of the turn before the final loop. Small talk becomes a text
  recommendation when a filter is present; an image branch without a decodable image
  raises \<^verbatim>\<open>HTTPException(400)\<close>; small talk has no products.
\<close>

definition chat_products ::
  "(real \<Rightarrow> real) \<Rightarrow> (string \<Rightarrow> (string \<Rightarrow> bool) option) \<Rightarrow> product list \<Rightarrow> int \<Rightarrow> turn
    \<Rightarrow> error + product list" where
  "chat_products rnd re_compile df min_unique t =
     (let intent = (if t_intent t = SMALLTALK \<and> any_filter (t_final_filters t)
                    then TEXT_RECOMMEND else t_intent t)
      in case intent of
           IMAGE_AND_TEXT \<Rightarrow>
             if t_image_ok t then image_and_text_products re_compile df min_unique t
             else Inl HTTPException
         | IMAGE_SEARCH \<Rightarrow>
             if t_image_ok t then image_search_products re_compile df min_unique t
             else Inl HTTPException
         | TEXT_RECOMMEND \<Rightarrow> text_recommend_products rnd re_compile df min_unique t
         | SMALLTALK \<Rightarrow> Inr [])"

text \<open>
  The response: the final loop (lines 431-438) runs on the products of every branch,
  and \<^verbatim>\<open>ChatResponse(reply=reply, products=products, trace=trace)\<close> carries its result.
\<close>

definition chat ::
  "(real \<Rightarrow> real) \<Rightarrow> (string \<Rightarrow> (string \<Rightarrow> bool) option) \<Rightarrow> product list \<Rightarrow> int \<Rightarrow> turn
    \<Rightarrow> error + product list" where
  "chat rnd re_compile df min_unique t =
     (case chat_products rnd re_compile df min_unique t of
        Inl e \<Rightarrow> Inl e
      | Inr products \<Rightarrow> Inr (dedup_by_id products))"

section \<open>\<^verbatim>\<open>agent/tools.py: CatalogIndex._mmr\<close>\<close>

text \<open>
  The embeddings are a matrix, one row per catalog row; \<^verbatim>\<open>u @ v\<close> on two rows is
  their inner product.
\<close>

definition dot :: "real list \<Rightarrow> real list \<Rightarrow> real" where
  "dot u v = sum_list (map2 (*) u v)"

text \<open>
  \<^verbatim>\<open>np.argmax\<close>: the first position of the largest entry. (On an empty array numpy
  raises; \<^verbatim>\<open>_mmr\<close> calls it only inside its loop, whose guard makes the candidate list
  non-empty.)
\<close>

fun argmax :: "real list \<Rightarrow> nat" where
  "argmax [] = 0"
| "argmax [x] = 0"
| "argmax (x # y # ys) = (let j = argmax (y # ys) in if (y # ys) ! j \<le> x then 0 else Suc j)"

text \<open>
  \<^verbatim>\<open>penalty = sim_items[:, sel_mask].max(axis=1) if sel_mask.any() else np.zeros(n)\<close>:
  for candidate \<open>j\<close> the largest similarity to a selected candidate, the selected columns
  taken in ascending order, and 0 when nothing is selected.
\<close>

fun max_of :: "real list \<Rightarrow> real" where
  "max_of [] = 0"
| "max_of [x] = x"
| "max_of (x # xs) = max x (max_of xs)"

definition penalty :: "real list list \<Rightarrow> nat \<Rightarrow> nat list \<Rightarrow> nat \<Rightarrow> real" where
  "penalty sim_items n selected j =
     max_of (map (\<lambda>s. sim_items ! j ! s) (filter (\<lambda>s. s \<in> set selected) [0..<n]))"

text \<open>
  \<^verbatim>\<open>
  mmr_score = diversity * sim_to_query - (1 - diversity) * penalty
  mmr_score[selected] = -1e9
  \<close>
\<close>

definition mmr_score :: "real \<Rightarrow> real list \<Rightarrow> real list list \<Rightarrow> nat list \<Rightarrow> real list" where
  "mmr_score diversity sim_to_query sim_items selected =
     map (\<lambda>j. if j \<in> set selected then - (10 ^ 9)
               else diversity * sim_to_query ! j
                    - (1 - diversity) * penalty sim_items (length sim_to_query) selected j)
       [0..<length sim_to_query]"

text \<open>One round of the loop: the position that is appended to \<open>selected\<close>.\<close>

definition mmr_pick :: "real \<Rightarrow> real list \<Rightarrow> real list list \<Rightarrow> nat list \<Rightarrow> nat" where
  "mmr_pick diversity sim_to_query sim_items selected =
     (if selected = [] then argmax sim_to_query
      else argmax (mmr_score diversity sim_to_query sim_items selected))"

text \<open>
  \<^verbatim>\<open>
  while len(selected) < min(top_k, len(cand_idxs)):
      if not selected: j = int(np.argmax(sim_to_query))
      else: ...; j = int(np.argmax(mmr_score))
      selected.append(j)
  \<close>
\<close>

function mmr_loop :: "real \<Rightarrow> real list \<Rightarrow> real list list \<Rightarrow> int \<Rightarrow> nat list \<Rightarrow> nat list" where
  "mmr_loop diversity sim_to_query sim_items top_k selected =
     (if int (length selected) < min top_k (int (length sim_to_query))
      then mmr_loop diversity sim_to_query sim_items top_k
             (selected @ [mmr_pick diversity sim_to_query sim_items selected])
      else selected)"
  by pat_completeness auto
termination
  by (relation "measure (\<lambda>(d, sq, si, k, sel). nat (min k (int (length sq))) - length sel)") auto

declare mmr_loop.simps [simp del]

text \<open>
  \<^verbatim>\<open>item_vecs = self.embeddings[cand_idxs]; sim_items = item_vecs @ item_vecs.T\<close>: the
  matrix of the inner products of the candidates' vectors.
\<close>

definition sim_matrix :: "real list list \<Rightarrow> nat list \<Rightarrow> real list list" where
  "sim_matrix embeddings cand_idxs =
     map (\<lambda>u. map (\<lambda>v. dot u v) (map (\<lambda>i. embeddings ! i) cand_idxs))
       (map (\<lambda>i. embeddings ! i) cand_idxs)"

text \<open>
  The candidates are pairs of a catalog position and its score: \<^verbatim>\<open>_search\<close> builds the
  two arrays \<^verbatim>\<open>cand_idxs\<close> and \<^verbatim>\<open>cand_scores\<close> it passes from one list of pairs.
  \<^verbatim>\<open>self.embeddings[cand_idxs]\<close> raises \<^verbatim>\<open>IndexError\<close> for a position outside the
  matrix. The argument \<^verbatim>\<open>query_vec\<close> is reshaped and never read.
\<close>

definition mmr :: "real list list \<Rightarrow> (nat \<times> real) list \<Rightarrow> int \<Rightarrow> real \<Rightarrow> error + nat list" where
  "mmr embeddings cands top_k diversity =
     (let cand_idxs = map fst cands; sim_to_query = map snd cands in
      if list_ex (\<lambda>i. i \<ge> length embeddings) cand_idxs then Inl IndexError
      else
        (let sim_items = sim_matrix embeddings cand_idxs;
             selected = mmr_loop diversity sim_to_query sim_items top_k []
         in Inr (map (\<lambda>j. cand_idxs ! j) selected)))"

text \<open>
  The range of the similarities: cosine similarities are bounded by 1, and any bound
  below \<open>10^9\<close> keeps the scores of the candidates apart from the mark \<open>-1e9\<close> of the
  selected ones.
\<close>

definition sims_bounded :: "real \<Rightarrow> real list list \<Rightarrow> (nat \<times> real) list \<Rightarrow> bool" where
  "sims_bounded b embeddings cands =
     (list_all (\<lambda>s. \<bar>s\<bar> \<le> b) (map snd cands)
      \<and> list_all (\<lambda>i. list_all (\<lambda>j. \<bar>dot (embeddings ! i) (embeddings ! j)\<bar> \<le> b) (map fst cands))
           (map fst cands))"

definition bounded_sims :: "real \<Rightarrow> real list \<Rightarrow> real list list \<Rightarrow> bool" where
  "bounded_sims b sq si =
     (list_all (\<lambda>s. \<bar>s\<bar> \<le> b) sq
      \<and> list_all (\<lambda>j. list_all (\<lambda>s. \<bar>si ! j ! s\<bar> \<le> b) [0..<length sq]) [0..<length sq])"



section \<open>\<^verbatim>\<open>agent/tools.py: CatalogIndex._search\<close> and \<^verbatim>\<open>search_similar_to_id\<close>\<close>

text \<open>
  The booster, lines 209-225: the base score and the conditional increments, in order,
  each \<^verbatim>\<open>score += c\<close> a rounded addition. \<^verbatim>\<open>if filters:\<close> holds for every
  \<^verbatim>\<open>FilterSpec\<close> object and fails for \<^verbatim>\<open>None\<close>.
\<close>

definition boost :: "(real \<Rightarrow> real) \<Rightarrow> FilterSpec option \<Rightarrow> product \<Rightarrow> real \<Rightarrow> real" where
  "boost rnd filters r score =
     (case filters of
        None \<Rightarrow> score
      | Some f \<Rightarrow>
          (let score = (if truthy (f_brand f) \<and> lower (brand r) = lower (the (f_brand f))
                        then rnd (score + rnd (5 / 100)) else score);
               score = (if truthy (f_category f)
                           \<and> py_in (lower (the (f_category f))) (lower (category r))
                        then rnd (score + rnd (3 / 100)) else score);
               score = (if truthy (f_tags_contains f)
                           \<and> py_in (lower (the (f_tags_contains f))) (lower (tags r))
                        then rnd (score + rnd (2 / 100)) else score);
               score = (case f_price_max f of
                          None \<Rightarrow> score
                        | Some mx \<Rightarrow>
                            if price r \<le> mx
                            then rnd (score + rnd (rnd (3 / 100)
                                                   * rnd (price r / max mx (rnd (1 / 10 ^ 6)))))
                            else score)
           in score))"

text \<open>
  Lines 189-198: duplicates by position are dropped, the first occurrence stays.
\<close>

fun uniq_loop :: "nat set \<Rightarrow> (nat \<times> real) list \<Rightarrow> (nat \<times> real) list" where
  "uniq_loop seen [] = []"
| "uniq_loop seen ((i, s) # rest) =
     (if i \<in> seen then uniq_loop seen rest else (i, s) # uniq_loop (insert i seen) rest)"

text \<open>
  \<open>inner\<close> is numpy's product \<^verbatim>\<open>query_emb @ self.embeddings[idx]\<close> of two vectors
  of single-precision floats, \<open>rnd\<close> the rounding of the booster's additions.
  \<open>raw_search\<close> is \<^verbatim>\<open>self._raw_search\<close>, the FAISS index: for a query and \<open>fetch_k\<close> it
  returns pairs of a label and a score, the label \<open>None\<close> standing for FAISS's marker
  \<open>-1\<close>, or it raises (a query of the wrong dimension).
  \<^verbatim>\<open>
  fetch_k = max(top_k * 5, 20)
  cand_scores, cand_idxs = self._raw_search(query_emb, fetch_k)
  (drop the label -1, drop duplicates)
  if not uniq_idxs: return []
  pick_idxs = self._mmr(query_emb, cand_idxs, cand_scores, top_k=top_k)
  out = [(idx, boosted score of idx) for idx in pick_idxs]
  out.sort(key=lambda x: x[1], reverse=True)
  return out[:top_k]
  \<close>
\<close>

definition search_candidates :: "(nat option \<times> real) list \<Rightarrow> (nat \<times> real) list" where
  "search_candidates res =
     uniq_loop {} (List.map_filter (\<lambda>(l, s). map_option (\<lambda>i. (i, s)) l) res)"

definition search ::
  "(real list \<Rightarrow> real list \<Rightarrow> real) \<Rightarrow> (real \<Rightarrow> real)
    \<Rightarrow> (real list \<Rightarrow> int \<Rightarrow> error + (nat option \<times> real) list) \<Rightarrow> real list list \<Rightarrow> product list
    \<Rightarrow> real list \<Rightarrow> int \<Rightarrow> FilterSpec option \<Rightarrow> error + (nat \<times> real) list" where
  "search inner rnd raw_search embeddings df query_emb top_k filters =
     (let fetch_k = max (top_k * 5) 20 in
      case raw_search query_emb fetch_k of
        Inl e \<Rightarrow> Inl e
      | Inr res \<Rightarrow>
          (let uniq = search_candidates res
           in if uniq = [] then Inr []
              else
                (case mmr embeddings uniq top_k 0.3 of
                   Inl e \<Rightarrow> Inl e
                 | Inr pick_idxs \<Rightarrow>
                     if list_ex (\<lambda>idx. idx \<ge> length df) pick_idxs then Inl IndexError
                     else
                       (let out = map (\<lambda>idx. (idx, boost rnd filters (df ! idx)
                                                     (inner query_emb (embeddings ! idx)))) pick_idxs
                        in Inr (py_take top_k (sort_reverse snd out))))))"

text \<open>
  The adjusted score in the words of the specification: the base similarity plus one
  bonus for each constraint field that is set and that the row matches. The bonuses
  that apply are listed in the order brand, category, tag, budget and added one after
  the other.
\<close>

definition bonuses :: "(real \<Rightarrow> real) \<Rightarrow> FilterSpec \<Rightarrow> product \<Rightarrow> real list" where
  "bonuses rnd f r =
     (if truthy (f_brand f) \<and> lower (brand r) = lower (the (f_brand f)) then [rnd (5 / 100)] else [])
     @ (if truthy (f_category f) \<and> py_in (lower (the (f_category f))) (lower (category r))
        then [rnd (3 / 100)] else [])
     @ (if truthy (f_tags_contains f) \<and> py_in (lower (the (f_tags_contains f))) (lower (tags r))
        then [rnd (2 / 100)] else [])
     @ (case f_price_max f of
          None \<Rightarrow> []
        | Some mx \<Rightarrow>
            if price r \<le> mx
            then [rnd (rnd (3 / 100) * rnd (price r / max mx (rnd (1 / 10 ^ 6))))] else [])"

definition adjusted_score_spec :: "(real \<Rightarrow> real) \<Rightarrow> FilterSpec \<Rightarrow> product \<Rightarrow> real \<Rightarrow> real" where
  "adjusted_score_spec rnd f r base = fold (\<lambda>bonus score. rnd (score + bonus)) (bonuses rnd f r) base"

text \<open>
  \<^verbatim>\<open>
  def search_similar_to_id(self, pid, top_k=8):
      row = self.df[self.df['id'].astype(str) == str(pid)]
      if row.empty: return []
      base_idx = int(row.index[0])
      q = self.embeddings[base_idx]
      scored = self._search(q, top_k=top_k + 1)
      out = [(i, s) for i, s in scored if self.df.iloc[i]['id'] != pid]
      return out[:top_k]
  \<close>
\<close>

definition search_similar_to_id ::
  "(real list \<Rightarrow> real list \<Rightarrow> real) \<Rightarrow> (real \<Rightarrow> real)
    \<Rightarrow> (real list \<Rightarrow> int \<Rightarrow> error + (nat option \<times> real) list) \<Rightarrow> real list list \<Rightarrow> product list
    \<Rightarrow> string \<Rightarrow> int \<Rightarrow> error + (nat \<times> real) list" where
  "search_similar_to_id inner rnd raw_search embeddings df p top_k =
     (case filter (\<lambda>i. pid (df ! i) = p) [0..<length df] of
        [] \<Rightarrow> Inr []
      | base_idx # _ \<Rightarrow>
          if base_idx \<ge> length embeddings then Inl IndexError
          else
            (case search inner rnd raw_search embeddings df (embeddings ! base_idx) (top_k + 1) None of
               Inl e \<Rightarrow> Inl e
             | Inr scored \<Rightarrow> Inr (py_take top_k (filter (\<lambda>(i, s). pid (df ! i) \<noteq> p) scored))))"

text \<open>
  An exact inner-product index to run the search on: every row is scored, the rows
  are put in descending order of score and the first \<open>fetch_k\<close> are returned.
\<close>

definition flat_ip :: "real list list \<Rightarrow> real list \<Rightarrow> int \<Rightarrow> error + (nat option \<times> real) list" where
  "flat_ip embeddings q fetch_k =
     Inr (py_take fetch_k
       (sort_reverse snd (map (\<lambda>i. (Some i, dot q (embeddings ! i))) [0..<length embeddings])))"

section \<open>\<^verbatim>\<open>agent/tools.py: CatalogIndex.__init__\<close>, the embedding cache (lines 119-146)\<close>

text \<open>
  The two cache files. A file is missing, or it cannot be read or parsed (the call
  raises), or it has a content: a JSON value for \<^verbatim>\<open>catalog_ids.json\<close>, an array with
  its shape for \<^verbatim>\<open>catalog_embeddings.npy\<close>.
\<close>

datatype 'a disk_file = Missing | Unreadable | Content 'a

datatype json = JNull | JBool bool | JNum int | JStr string | JList "json list"
  | JDict "(string \<times> json) list"

record ndarray =
  shape :: "nat list"
  rows :: "real list list"

record cache_files =
  emb_file :: "ndarray disk_file"
  ids_file :: "json disk_file"

datatype load_error = OSError | TypeError | ShapeIndexError

text \<open>\<^verbatim>\<open>len(ids)\<close> on what \<^verbatim>\<open>json.load\<close> returned.\<close>

fun py_len :: "json \<Rightarrow> load_error + nat" where
  "py_len (JList xs) = Inr (length xs)"
| "py_len (JStr s) = Inr (length s)"
| "py_len (JDict kvs) = Inr (length kvs)"
| "py_len _ = Inl TypeError"

text \<open>
  The body of the \<^verbatim>\<open>try\<close>:
  \<^verbatim>\<open>
  if os.path.isfile(emb_path) and os.path.isfile(ids_path):
      with open(ids_path, "r") as f: ids = json.load(f)
      embs = np.load(emb_path)
      if len(ids) == len(self.df) and embs.shape[0] == len(self.df):
          if list(self.df["id"].astype(str)) == ids:
              self.embeddings = embs.astype("float32"); loaded = True
  \<close>
  \<open>Inl\<close> is an exception, \<open>Inr None\<close> leaves \<open>loaded = False\<close>.
\<close>

definition try_load :: "cache_files \<Rightarrow> string list \<Rightarrow> load_error + ndarray option" where
  "try_load fs df_ids =
     (if emb_file fs \<noteq> Missing \<and> ids_file fs \<noteq> Missing then
        (case ids_file fs of
           Content ids \<Rightarrow>
             (case emb_file fs of
                Content embs \<Rightarrow>
                  (case py_len ids of
                     Inl e \<Rightarrow> Inl e
                   | Inr n \<Rightarrow>
                       if n = length df_ids then
                         (case shape embs of
                            [] \<Rightarrow> Inl ShapeIndexError
                          | d0 # _ \<Rightarrow>
                              if d0 = length df_ids then
                                (if JList (map JStr df_ids) = ids then Inr (Some embs) else Inr None)
                              else Inr None)
                       else Inr None)
              | _ \<Rightarrow> Inl OSError)
         | _ \<Rightarrow> Inl OSError)
      else Inr None)"

text \<open>\<^verbatim>\<open>except Exception: loaded = False\<close>.\<close>

definition load_cache :: "cache_files \<Rightarrow> string list \<Rightarrow> ndarray option" where
  "load_cache fs df_ids = (case try_load fs df_ids of Inl e \<Rightarrow> None | Inr r \<Rightarrow> r)"

definition compose_text :: "product \<Rightarrow> string" where
  "compose_text r =
     title r @ '' | '' @ description r @ '' | category: '' @ category r @ '' | brand: '' @ brand r
       @ '' | tags: '' @ tags r"

text \<open>
  After the \<^verbatim>\<open>try\<close>: on a miss the corpus is encoded and the two files are written,
  \<^verbatim>\<open>np.save\<close> first; a failing write is swallowed (\<^verbatim>\<open>except Exception: pass\<close>).
  \<open>encode_text\<close> is the encoder (it returns an array), \<open>emb_writable\<close> and \<open>ids_writable\<close> say whether the
  two writes succeed. The result is the matrix in use and the files afterwards.
\<close>

definition init_embeddings ::
  "(string list \<Rightarrow> ndarray) \<Rightarrow> bool \<Rightarrow> bool \<Rightarrow> cache_files \<Rightarrow> product list
    \<Rightarrow> real list list \<times> cache_files" where
  "init_embeddings encode_text emb_writable ids_writable fs df =
     (case load_cache fs (map pid df) of
        Some embs \<Rightarrow> (rows embs, fs)
      | None \<Rightarrow>
          (let embeddings = encode_text (map compose_text df);
               fs1 = (if emb_writable then fs\<lparr>emb_file := Content embeddings\<rparr> else fs);
               fs2 = (if emb_writable \<and> ids_writable
                      then fs1\<lparr>ids_file := Content (JList (map JStr (map pid df)))\<rparr>
                      else fs1)
           in (rows embeddings, fs2)))"

text \<open>The catalog of \<^verbatim>\<open>tests/test_tools_filters.py: make_df\<close>.\<close>

definition row :: "string \<Rightarrow> string \<Rightarrow> string \<Rightarrow> string \<Rightarrow> real \<Rightarrow> string \<Rightarrow> product" where
  "row i t c b p tg =
     \<lparr>pid = i, title = t, description = [], category = c, brand = b, price = p,
      currency = ''USD'', image_url = [], product_url = None, tags = tg\<rparr>"

definition make_df :: "product list" where
  "make_df =
     [row ''a'' ''Nike Tee'' ''t-shirt'' ''Nike'' 25 ''breathable,athletic'',
      row ''b'' ''Adidas Tee'' ''t-shirt'' ''Adidas'' 30 ''athletic'',
      row ''c'' ''Nike Hoodie'' ''hoodie'' ''Nike'' 45 ''warm'']"

definition no_filters :: FilterSpec where
  "no_filters = \<lparr>f_brand = None, f_category = None, f_price_min = None, f_price_max = None,
                 f_tags_contains = None\<rparr>"

text \<open>A catalog where two rows with different ids name the same shirt.\<close>

definition dup_df :: "product list" where
  "dup_df =
     [row ''a'' ''Nike Tee'' ''t-shirt'' ''Nike'' 25 ''breathable,athletic'',
      row ''a2'' ''NIKE Tee!'' ''t-shirt'' ''nike'' 27 ''athletic'',
      row ''b'' ''Adidas Tee'' ''t-shirt'' ''Adidas'' 30 ''athletic'']"

text \<open>A catalog where two rows carry one id.\<close>

definition twin_df :: "product list" where
  "twin_df =
     [row ''a'' ''Nike Tee'' ''t-shirt'' ''Nike'' 25 ''athletic'',
      row ''a'' ''Nike Hoodie'' ''hoodie'' ''Nike'' 45 ''warm'']"

definition twin_turn :: turn where
  "twin_turn =
     \<lparr>t_intent = TEXT_RECOMMEND, t_image_ok = False, t_scored = [(0, 9 / 10), (1, 8 / 10)],
      t_user_text = ''recommend nike'', t_final_filters = no_filters,
      t_strict_filters = no_filters, t_top_k = 8\<rparr>"

definition dup_turn :: turn where
  "dup_turn =
     \<lparr>t_intent = TEXT_RECOMMEND, t_image_ok = False,
      t_scored = [(0, 9 / 10), (1, 8 / 10), (2, 7 / 10)],
      t_user_text = ''recommend nike tee'',
      t_final_filters = no_filters\<lparr>f_category := Some ''t-shirt''\<rparr>,
      t_strict_filters = no_filters\<lparr>f_category := Some ''t-shirt''\<rparr>, t_top_k = - 1\<rparr>"

text \<open>
  Two rows under a budget of 24 and the category \<^verbatim>\<open>cap\<close>: with similarities 0.25 and
  0.21875 their adjusted scores are both 0.2775 in exact arithmetic and differ in
  doubles.
\<close>

definition budget_df :: "product list" where
  "budget_df =
     [row ''x'' ''Tee'' ''t-shirt'' ''Nike'' 22 ''athletic'',
      row ''y'' ''Cap'' ''cap'' ''Nike'' 23 ''athletic'']"

definition budget_emb :: "real list list" where
  "budget_emb = [[1 / 4, 0], [7 / 32, 0]]"

definition budget_filters :: FilterSpec where
  "budget_filters = \<lparr>f_brand = None, f_category = Some ''cap'', f_price_min = None,
                     f_price_max = Some 24, f_tags_contains = None\<rparr>"

text \<open>Three unit vectors for the three rows of \<open>make_df\<close>, and two states of the cache.\<close>

definition emb3 :: "real list list" where
  "emb3 = [[1, 0], [0.6, 0.8], [0, 1]]"

definition stale_cache :: cache_files where
  "stale_cache =
     \<lparr>emb_file = Content \<lparr>shape = [2, 2], rows = [[1, 0], [0.6, 0.8]]\<rparr>,
      ids_file = Content (JList [JStr ''a'', JStr ''b'', JStr ''c''])\<rparr>"

definition good_cache :: cache_files where
  "good_cache =
     \<lparr>emb_file = Content \<lparr>shape = [3, 2], rows = emb3\<rparr>,
      ids_file = Content (JList [JStr ''a'', JStr ''b'', JStr ''c''])\<rparr>"

section \<open>Properties of the final de-duplication\<close>

lemma dedup_loop_first_by_id: "dedup_loop seen unique ps = unique @ first_by_id seen ps"
  by (induction ps arbitrary: seen unique) auto

lemma first_by_id_unseen: "p \<in> set (first_by_id seen ps) \<Longrightarrow> pid p \<notin> seen"
  by (induction ps arbitrary: seen) (auto split: if_splits)

lemma first_by_id_ids: "pid ` set (first_by_id seen ps) = pid ` set ps - seen"
  by (induction ps arbitrary: seen) auto

lemma first_by_id_distinct: "distinct (map pid (first_by_id seen ps))"
  by (induction ps arbitrary: seen) (auto dest: first_by_id_unseen)

lemma first_by_id_subseq: "subseq (first_by_id seen ps) ps"
  by (induction ps arbitrary: seen) auto

lemma first_by_id_find:
  "p \<in> set (first_by_id seen ps) \<Longrightarrow> find (\<lambda>q. pid q = pid p) ps = Some p"
proof (induction ps arbitrary: seen)
  case Nil
  then show ?case by simp
next
  case (Cons a ps)
  show ?case
  proof (cases "pid a = pid p")
    case True
    have "p \<notin> set (first_by_id (insert (pid a) seen) ps)"
      using first_by_id_unseen [of p "insert (pid a) seen" ps] True by auto
    moreover have "p \<notin> set (first_by_id seen ps)" if "pid a \<in> seen"
      using first_by_id_unseen [of p seen ps] True that by auto
    ultimately have "p = a"
      using Cons.prems by (auto split: if_splits)
    then show ?thesis by simp
  next
    case False
    then have "p \<in> set (first_by_id seen ps) \<or> p \<in> set (first_by_id (insert (pid a) seen) ps)"
      using Cons.prems by (auto split: if_splits)
    then have "find (\<lambda>q. pid q = pid p) ps = Some p"
      using Cons.IH by blast
    then show ?thesis using False by simp
  qed
qed

lemma dedup_by_id_props:
  "distinct (map pid (dedup_by_id ps)) \<and>
   pid ` set (dedup_by_id ps) = pid ` set ps \<and>
   subseq (dedup_by_id ps) ps \<and>
   (\<forall>p \<in> set (dedup_by_id ps). find (\<lambda>q. pid q = pid p) ps = Some p)"
proof -
  have eq: "dedup_by_id ps = first_by_id {} ps"
    by (simp add: dedup_by_id_def dedup_loop_first_by_id)
  show ?thesis
    unfolding eq
    using first_by_id_distinct [of "{}" ps] first_by_id_ids [of "{}" ps]
      first_by_id_subseq [of "{}" ps] first_by_id_find [of _ "{}" ps]
    by simp
qed

lemma chat_Inr:
  assumes "chat rnd re df mu t = Inr ps"
  shows "\<exists>products. chat_products rnd re df mu t = Inr products \<and> ps = dedup_by_id products"
  using assms unfolding chat_def by (auto split: sum.splits)

text \<open>
  C10. Whatever the branch, the products of a response of \<open>chat\<close> are the products of
  the branch after the final loop: their ids are pairwise distinct, no id of the
  branch's products is lost, the survivors stand in their original order (a
  subsequence), and each survivor is the first product of the branch that carries its
  id.
\<close>

theorem chat_response_dedup:
  assumes "chat rnd re df mu t = Inr ps"
  shows "distinct (map pid ps) \<and>
         (\<exists>products. chat_products rnd re df mu t = Inr products
            \<and> ps = dedup_by_id products
            \<and> pid ` set ps = pid ` set products
            \<and> subseq ps products
            \<and> (\<forall>p \<in> set ps. find (\<lambda>q. pid q = pid p) products = Some p))"
proof -
  obtain products where p: "chat_products rnd re df mu t = Inr products" "ps = dedup_by_id products"
    using chat_Inr [OF assms] by blast
  show ?thesis
    using p dedup_by_id_props [of products] by blast
qed

theorem chat_response_dedup_witness:
  "chat_products round_double (\<lambda>_. None) twin_df 2 twin_turn = Inr [twin_df ! 0, twin_df ! 1]
   \<and> pid (twin_df ! 0) = pid (twin_df ! 1)
   \<and> chat round_double (\<lambda>_. None) twin_df 2 twin_turn = Inr [twin_df ! 0]
   \<and> distinct (map pid [twin_df ! 0])"
proof -
  have c: "chat round_double (\<lambda>_. None) twin_df 2 twin_turn = Inr [twin_df ! 0]"
    by code_simp
  have b: "chat_products round_double (\<lambda>_. None) twin_df 2 twin_turn = Inr [twin_df ! 0, twin_df ! 1]"
    by code_simp
  have i: "pid (twin_df ! 0) = pid (twin_df ! 1)"
    by code_simp
  have "distinct (map pid [twin_df ! 0])"
    using chat_response_dedup [OF c] by blast
  then show ?thesis
    using b c i by blast
qed

section \<open>Properties of the relaxation pipeline\<close>

lemma add_unique_loop_extends:
  "\<exists>ys. add_unique_loop df k seen out pool = out @ ys \<and> set ys \<subseteq> set pool"
proof (induction pool arbitrary: seen out)
  case Nil
  then show ?case by simp
next
  case (Cons i pool)
  obtain ys1 where y1: "add_unique_loop df k seen out pool = out @ ys1" "set ys1 \<subseteq> set pool"
    using Cons.IH [of seen out] by blast
  obtain ys2 where y2: "add_unique_loop df k (insert (dedup_key df i) seen) (out @ [i]) pool
      = (out @ [i]) @ ys2" "set ys2 \<subseteq> set pool"
    using Cons.IH [of "insert (dedup_key df i) seen" "out @ [i]"] by blast
  show ?case
  proof (cases "int (length out) \<ge> k")
    case True
    then show ?thesis by simp
  next
    case False
    show ?thesis
    proof (cases "dedup_key df i \<in> seen")
      case True
      then show ?thesis using False y1 by auto
    next
      case notin: False
      have "add_unique_loop df k seen out (i # pool) = out @ (i # ys2)"
        using False notin y2 by simp
      moreover have "set (i # ys2) \<subseteq> set (i # pool)" using y2 by auto
      ultimately show ?thesis by blast
    qed
  qed
qed

lemma add_unique_loop_distinct:
  "distinct (map (dedup_key df) out) \<Longrightarrow> dedup_key df ` set out \<subseteq> seen
   \<Longrightarrow> distinct (map (dedup_key df) (add_unique_loop df k seen out pool))"
proof (induction pool arbitrary: seen out)
  case Nil
  then show ?case by simp
next
  case (Cons i pool)
  show ?case
  proof (cases "int (length out) \<ge> k \<or> dedup_key df i \<in> seen")
    case True
    then show ?thesis using Cons by auto
  next
    case False
    then have new: "dedup_key df i \<notin> dedup_key df ` set out"
      using Cons.prems(2) by blast
    have "distinct (map (dedup_key df) (out @ [i]))"
      using Cons.prems(1) new by simp
    moreover have "dedup_key df ` set (out @ [i]) \<subseteq> insert (dedup_key df i) seen"
      using Cons.prems(2) by auto
    ultimately have "distinct (map (dedup_key df)
        (add_unique_loop df k (insert (dedup_key df i) seen) (out @ [i]) pool))"
      by (rule Cons.IH)
    then show ?thesis using False by simp
  qed
qed

lemma add_unique_distinct:
  "distinct (map (dedup_key df) seed) \<Longrightarrow> distinct (map (dedup_key df) (add_unique df k seed pool))"
  unfolding add_unique_def by (rule add_unique_loop_distinct) auto

lemma add_unique_extends:
  "\<exists>ys. add_unique df k seed pool = seed @ ys \<and> set ys \<subseteq> set pool"
  unfolding add_unique_def by (rule add_unique_loop_extends)

lemma py_take_is_take: "\<exists>n. py_take k xs = take n xs"
  unfolding py_take_def by auto

lemma distinct_map_py_take:
  "distinct (map f xs) \<Longrightarrow> distinct (map f (py_take k xs))"
proof -
  assume d: "distinct (map f xs)"
  obtain n where n: "py_take k xs = take n xs" using py_take_is_take by blast
  have "map f (take n xs) = take n (map f xs)" by (simp add: take_map)
  then show ?thesis using d n by (simp add: distinct_take)
qed

lemma stage1_distinct: "distinct (map (dedup_key df) (stage1 df allowed cands k))"
  unfolding stage1_def by (simp add: Let_def add_unique_distinct)

lemma stage2_distinct:
  "distinct (map (dedup_key df) chosen) \<Longrightarrow> distinct (map (dedup_key df) (stage2 df f cands k chosen))"
  unfolding stage2_def by (simp add: Let_def add_unique_distinct)

lemma stage3_distinct:
  "distinct (map (dedup_key df) chosen) \<Longrightarrow> distinct (map (dedup_key df) (stage3 df f cands k chosen))"
  unfolding stage3_def by (simp add: Let_def add_unique_distinct)

lemma staged_distinct: "distinct (map (dedup_key df) (staged df f allowed cands k))"
  unfolding staged_def by (intro stage3_distinct stage2_distinct stage1_distinct)

lemma override_distinct: "distinct (map (dedup_key df) (override df mu k cands))"
  unfolding override_def by (intro distinct_map_py_take add_unique_distinct) simp

lemma pick_with_filters_distinct_keys:
  assumes "pick_with_filters re df mu scored f k = Inr chosen"
  shows "distinct (map (dedup_key df) chosen)"
  using assms staged_distinct [of df f _ "map fst scored" k] override_distinct [of df mu k "map fst scored"]
  unfolding pick_with_filters_def
  by (auto simp: Let_def split: sum.splits if_splits)

lemma add_unique_loop_length:
  "int (length out) \<le> k \<Longrightarrow>
   length (add_unique_loop df k seen out pool)
     = min (nat k) (length out + card (dedup_key df ` set pool - seen))"
proof (induction pool arbitrary: seen out)
  case Nil
  then show ?case by simp
next
  case (Cons i pool)
  show ?case
  proof (cases "int (length out) \<ge> k")
    case True
    then show ?thesis using Cons.prems by simp
  next
    case False
    show ?thesis
    proof (cases "dedup_key df i \<in> seen")
      case True
      have "dedup_key df ` set (i # pool) - seen = dedup_key df ` set pool - seen"
        using True by auto
      then show ?thesis using False True Cons.IH [OF Cons.prems, of seen] by simp
    next
      case notin: False
      let ?key = "dedup_key df i"
      have le: "int (length (out @ [i])) \<le> k" using False by simp
      have "dedup_key df ` set (i # pool) - seen
            = insert ?key (dedup_key df ` set pool - insert ?key seen)"
        using notin by auto
      moreover have "?key \<notin> dedup_key df ` set pool - insert ?key seen" by simp
      ultimately have "card (dedup_key df ` set (i # pool) - seen)
            = Suc (card (dedup_key df ` set pool - insert ?key seen))"
        by simp
      then show ?thesis
        using False notin Cons.IH [OF le, of "insert ?key seen"] by simp
    qed
  qed
qed

lemma add_unique_length:
  "length (add_unique df k [] pool) = min (nat k) (card (dedup_key df ` set pool))"
proof (cases "0 \<le> k")
  case True
  then show ?thesis
    unfolding add_unique_def using add_unique_loop_length [of "[]" k df "{}" pool] by simp
next
  case False
  then have "add_unique_loop df k {} [] pool = []"
    by (cases pool) auto
  then show ?thesis using False by (simp add: add_unique_def)
qed

lemma override_eq: "override df mu k cands = add_unique df k [] cands"
proof (cases "0 \<le> max mu k")
  case True
  have "length (add_unique df k [] cands) \<le> nat (max mu k)"
    unfolding add_unique_length by auto
  then show ?thesis using True by (simp add: override_def py_take_def)
next
  case False
  then have "length (add_unique df k [] cands) = 0"
    unfolding add_unique_length by auto
  then show ?thesis by (simp add: override_def py_take_def)
qed

lemma override_length:
  "length (override df mu k cands) = min (nat k) (card (dedup_key df ` set cands))"
  by (simp add: override_eq add_unique_length)

lemma override_supplies_min_unique:
  assumes "mu \<le> k" and "mu \<le> int (card (dedup_key df ` set cands))"
  shows "mu \<le> int (length (override df mu k cands))"
  using assms unfolding override_length by auto

lemma pick_with_filters_cases:
  assumes "apply_filters re (frame_of df) f = Inr allowed"
    and "list_all (\<lambda>i. i < length df) (map fst scored)"
  shows "pick_with_filters re df mu scored f k =
     Inr (if override_fires mu (map fst scored) (staged df f allowed (map fst scored) k)
          then override df mu k (map fst scored)
          else staged df f allowed (map fst scored) k)"
  using assms unfolding pick_with_filters_def
  by (auto simp: Let_def list_ex_iff list_all_iff)

text \<open>
  C1. The override does rebuild the list from the raw candidates with the dedup rule
  alone, but \<open>add_unique\<close> stops at \<open>top_k\<close> entries, so the slice
  \<^verbatim>\<open>chosen[: max(min_unique, top_k)]\<close> never cuts anything (\<open>override_eq\<close>) and the
  rebuilt list has \<open>min top_k (number of distinct keys)\<close> entries (\<open>override_length\<close>).
  With \<^verbatim>\<open>top_k = 1\<close>, three candidates with three distinct keys and a brand filter
  that no row satisfies, the staged result is empty, the override fires and the caller
  gets one result, not two.
\<close>

theorem override_capped_by_top_k:
  "apply_filters (\<lambda>_. None) (frame_of make_df) (no_filters\<lparr>f_brand := Some ''Puma''\<rparr>) = Inr []
   \<and> staged make_df (no_filters\<lparr>f_brand := Some ''Puma''\<rparr>) [] [0, 1, 2] 1 = []
   \<and> override_fires 2 [0, 1, 2] []
   \<and> distinct (map (dedup_key make_df) [0, 1, 2])
   \<and> max (2::int) 1 = 2
   \<and> pick_with_filters (\<lambda>_. None) make_df 2 [(0, 0.9), (1, 0.8), (2, 0.7)]
        (no_filters\<lparr>f_brand := Some ''Puma''\<rparr>) 1 = Inr [0]"
  by code_simp

lemma dot_is_meta: "re_meta (CHR ''.'')"
  by (simp add: re_meta_def)

lemma re_match_here_literal:
  "list_all (\<lambda>c. \<not> re_meta c) p \<Longrightarrow> re_match_here p s = prefix (lower p) (lower s)"
proof (induction p s rule: re_match_here.induct)
  case (1 s)
  then show ?case by (simp add: lower_def)
next
  case (2 p ps)
  then show ?case by (simp add: lower_def)
next
  case (3 p ps c cs)
  have "p \<noteq> CHR ''.''" using 3(2) dot_is_meta by auto
  then show ?case using 3 by (simp add: lower_def)
qed

lemma re_search_dots_literal:
  "list_all (\<lambda>c. \<not> re_meta c) p \<Longrightarrow> re_search_dots p s = py_in (lower p) (lower s)"
proof (induction s)
  case Nil
  then show ?case by (simp add: lower_def)
next
  case (Cons c cs)
  have "re_match_here p (c # cs) = prefix (lower p) (lower (c # cs))"
    using Cons.prems by (rule re_match_here_literal)
  then show ?case using Cons by (simp add: lower_def)
qed

lemma str_contains_literal:
  "list_all (\<lambda>c. \<not> re_meta c) p \<Longrightarrow>
   str_contains re p = Some (\<lambda>s. py_in (lower p) (lower s))"
proof -
  assume lit: "list_all (\<lambda>c. \<not> re_meta c) p"
  then have "list_all (\<lambda>c. c = CHR ''.'' \<or> \<not> re_meta c) p"
    by (simp add: list_all_iff)
  then show ?thesis
    using lit by (auto simp: str_contains_def re_search_dots_literal)
qed

lemma filter_contains_subset:
  "filter_contains re pat col out = Inr out' \<Longrightarrow> set out' \<subseteq> set out"
  by (auto simp: filter_contains_def split: if_splits option.splits)

lemma filter_contains_literal:
  assumes "filter_contains re pat col out = Inr out'" "truthy pat"
    "list_all (\<lambda>c. \<not> re_meta c) (the pat)" "(i, r) \<in> set out'"
  shows "py_in (lower (the pat)) (lower (col r))"
  using assms by (auto simp: filter_contains_def str_contains_literal split: if_splits)

lemma apply_filters_sound:
  assumes "apply_filters re df f = Inr allowed" "(i, r) \<in> set allowed"
  shows "(i, r) \<in> set df"
    and "truthy (f_brand f) \<Longrightarrow> lower (brand r) = lower (the (f_brand f))"
    and "f_price_min f = Some lo \<Longrightarrow> lo \<le> price r"
    and "f_price_max f = Some hi \<Longrightarrow> price r \<le> hi"
    and "truthy (f_category f) \<Longrightarrow> list_all (\<lambda>c. \<not> re_meta c) (the (f_category f))
         \<Longrightarrow> py_in (lower (the (f_category f))) (lower (category r))"
proof -
  define out1 where "out1 = (if truthy (f_brand f)
      then filter (\<lambda>(i, r). lower (brand r) = lower (the (f_brand f))) df else df)"
  obtain out2 where o2: "filter_contains re (f_category f) category out1 = Inr out2"
    using assms(1) unfolding apply_filters_def out1_def Let_def by (auto split: sum.splits)
  define out3 where "out3 = (case f_price_min f of None \<Rightarrow> out2
                         | Some lo \<Rightarrow> filter (\<lambda>(i, r). price r \<ge> lo) out2)"
  define out4 where "out4 = (case f_price_max f of None \<Rightarrow> out3
                         | Some hi \<Rightarrow> filter (\<lambda>(i, r). price r \<le> hi) out3)"
  have o5: "filter_contains re (f_tags_contains f) tags out4 = Inr allowed"
    using assms(1) o2 unfolding apply_filters_def out1_def [symmetric] Let_def out3_def out4_def
    by simp
  have in4: "(i, r) \<in> set out4" using filter_contains_subset [OF o5] assms(2) by blast
  then have in3: "(i, r) \<in> set out3" by (auto simp: out4_def split: option.splits)
  then have in2: "(i, r) \<in> set out2" by (auto simp: out3_def split: option.splits)
  then have in1: "(i, r) \<in> set out1" using filter_contains_subset [OF o2] by blast
  show "(i, r) \<in> set df" using in1 by (auto simp: out1_def split: if_splits)
  show "truthy (f_brand f) \<Longrightarrow> lower (brand r) = lower (the (f_brand f))"
    using in1 by (auto simp: out1_def)
  show "f_price_min f = Some lo \<Longrightarrow> lo \<le> price r"
    using in3 by (auto simp: out3_def)
  show "f_price_max f = Some hi \<Longrightarrow> price r \<le> hi"
    using in4 by (auto simp: out4_def)
  show "truthy (f_category f) \<Longrightarrow> list_all (\<lambda>c. \<not> re_meta c) (the (f_category f))
         \<Longrightarrow> py_in (lower (the (f_category f))) (lower (category r))"
    using filter_contains_literal [OF o2 _ _ in2] by simp
qed

lemma frame_of_iff: "(i, r) \<in> set (frame_of df) \<longleftrightarrow> i < length df \<and> r = df ! i"
  unfolding frame_of_def by (force simp: in_set_zip)

lemma stage1_sound:
  assumes "i \<in> set (stage1 df allowed cands k)"
  shows "i \<in> set cands \<and> (\<exists>j r. (j, r) \<in> set allowed \<and> pid r = pid (df ! i))"
proof -
  obtain ys where "add_unique df k [] (filter (\<lambda>i. pid (df ! i) \<in> set (map (\<lambda>(i, r). pid r) allowed)) cands) = [] @ ys"
     "set ys \<subseteq> set (filter (\<lambda>i. pid (df ! i) \<in> set (map (\<lambda>(i, r). pid r) allowed)) cands)"
    using add_unique_extends by blast
  then have "i \<in> set (filter (\<lambda>i. pid (df ! i) \<in> set (map (\<lambda>(i, r). pid r) allowed)) cands)"
    using assms unfolding stage1_def Let_def by auto
  then show ?thesis by force
qed

lemma stage2_sound:
  assumes "i \<in> set (stage2 df f cands k chosen)"
  shows "i \<in> set chosen \<or>
     (i \<in> set cands \<and> truthy (f_category f)
      \<and> py_in (lower (the (f_category f))) (lower (category (df ! i)))
      \<and> within_price_brand f (df ! i))"
proof (cases "int (length chosen) < k \<and> truthy (f_category f)")
  case True
  let ?pool = "filter (\<lambda>i. i \<notin> set chosen \<and> py_in (lower (the (f_category f))) (lower (category (df ! i)))
                                  \<and> within_price_brand f (df ! i)) cands"
  obtain ys where "add_unique df k chosen ?pool = chosen @ ys" "set ys \<subseteq> set ?pool"
    using add_unique_extends by blast
  then have "i \<in> set chosen \<or> i \<in> set ?pool"
    using assms True unfolding stage2_def Let_def by auto
  then show ?thesis using True by auto
next
  case False
  then show ?thesis using assms unfolding stage2_def by auto
qed

lemma stage3_sound:
  assumes "i \<in> set (stage3 df f cands k chosen)"
  shows "i \<in> set chosen \<or>
     (i \<in> set cands \<and> \<not> truthy (f_category f) \<and> within_price_brand f (df ! i))"
proof (cases "int (length chosen) < k \<and> \<not> truthy (f_category f)")
  case True
  let ?pool = "filter (\<lambda>i. i \<notin> set chosen \<and> within_price_brand f (df ! i)) cands"
  obtain ys where "add_unique df k chosen ?pool = chosen @ ys" "set ys \<subseteq> set ?pool"
    using add_unique_extends by blast
  then have "i \<in> set chosen \<or> i \<in> set ?pool"
    using assms True unfolding stage3_def Let_def by auto
  then show ?thesis using True by auto
next
  case False
  then show ?thesis using assms unfolding stage3_def by auto
qed

lemma staged_category_literal:
  assumes af: "apply_filters re (frame_of df) f = Inr allowed"
    and cat: "truthy (f_category f)"
    and lit: "list_all (\<lambda>c. \<not> re_meta c) (the (f_category f))"
    and ids: "distinct (map pid df)"
    and rng: "list_all (\<lambda>i. i < length df) cands"
    and i: "i \<in> set (staged df f allowed cands k)"
  shows "py_in (lower (the (f_category f))) (lower (category (df ! i)))"
proof -
  let ?c1 = "stage1 df allowed cands k"
  let ?c2 = "stage2 df f cands k ?c1"
  have "i \<in> set ?c2"
    using stage3_sound [of i df f cands k ?c2] i cat unfolding staged_def by auto
  then consider (one) "i \<in> set ?c1"
    | (two) "py_in (lower (the (f_category f))) (lower (category (df ! i)))"
    using stage2_sound [of i df f cands k ?c1] by auto
  then show ?thesis
  proof cases
    case one
    then obtain j r where jr: "i \<in> set cands" "(j, r) \<in> set allowed" "pid r = pid (df ! i)"
      using stage1_sound by blast
    have "(j, r) \<in> set (frame_of df)" using apply_filters_sound(1) [OF af jr(2)] .
    then have j: "j < length df" "r = df ! j" by (simp_all add: frame_of_iff)
    have il: "i < length df" using rng jr(1) by (simp add: list_all_iff)
    have "i = j"
    proof -
      have "map pid df ! i = map pid df ! j" using il j(1) jr(3) unfolding j(2) by simp
      moreover have "i < length (map pid df)" "j < length (map pid df)" using il j(1) by simp_all
      ultimately show ?thesis using nth_eq_iff_index_eq [OF ids] by blast
    qed
    then show ?thesis
      using apply_filters_sound(5) [OF af jr(2) cat lit] j by simp
  next
    case two
    then show ?thesis .
  qed
qed

text \<open>
  C2. For a category constraint without regular-expression metacharacters every row of
  the staged result has a category that contains it (\<open>staged_category_literal\<close>). The
  strict stage, however, matches the category through
  \<^verbatim>\<open>str.contains\<close>, which reads it as a regular expression, where stage 2, the
  booster and the fallback test a plain substring. For the category \<^verbatim>\<open>t.shirt\<close> the
  strict stage admits the rows \<open>a\<close> and \<open>b\<close> of category \<^verbatim>\<open>t-shirt\<close>; the override
  does not fire, and the category of the chosen rows does not contain the constraint.
\<close>

theorem strict_stage_reads_category_as_regex:
  "apply_filters (\<lambda>_. None) (frame_of make_df) (no_filters\<lparr>f_category := Some ''t.shirt''\<rparr>)
     = Inr [(0, make_df ! 0), (1, make_df ! 1)]
   \<and> staged make_df (no_filters\<lparr>f_category := Some ''t.shirt''\<rparr>)
        [(0, make_df ! 0), (1, make_df ! 1)] [0, 1, 2] 8 = [0, 1]
   \<and> override_fires 2 [0, 1, 2] [0, 1] = False
   \<and> pick_with_filters (\<lambda>_. None) make_df 2 [(0, 0.9), (1, 0.8), (2, 0.7)]
        (no_filters\<lparr>f_category := Some ''t.shirt''\<rparr>) 8 = Inr [0, 1]
   \<and> py_in (lower ''t.shirt'') (lower (category (make_df ! 0))) = False
   \<and> py_in (lower ''t.shirt'') (lower (category (make_df ! 1))) = False"
  by code_simp

lemma pick_with_filters_nonempty:
  assumes pick: "pick_with_filters re df mu scored f k = Inr chosen"
    and k: "1 \<le> k" and mu: "1 \<le> mu" "mu \<le> int (length scored)"
  shows "chosen \<noteq> []"
proof -
  let ?cands = "map fst scored"
  obtain allowed where af: "apply_filters re (frame_of df) f = Inr allowed"
    using pick unfolding pick_with_filters_def by (cases "apply_filters re (frame_of df) f") auto
  have c: "chosen = (if override_fires mu ?cands (staged df f allowed ?cands k)
      then override df mu k ?cands else staged df f allowed ?cands k)"
    using pick af unfolding pick_with_filters_def
    by (auto simp: Let_def split: if_splits)
  show ?thesis
  proof (cases "override_fires mu ?cands (staged df f allowed ?cands k)")
    case True
    have "scored \<noteq> []" using mu by auto
    then have "dedup_key df ` set ?cands \<noteq> {}" by simp
    then have "0 < card (dedup_key df ` set ?cands)" by (simp add: card_gt_0_iff)
    then have "0 < length (override df mu k ?cands)"
      unfolding override_length using k by simp
    then show ?thesis using c True by auto
  next
    case False
    then have "mu \<le> int (length (staged df f allowed ?cands k))"
      using mu(2) by (simp add: override_fires_def)
    then have "0 < length (staged df f allowed ?cands k)" using mu(1) by linarith
    then show ?thesis using c False by auto
  qed
qed

lemma rows_distinct_keys:
  assumes "pick_with_filters re df mu scored f k = Inr chosen"
  shows "distinct (map (\<lambda>p. (norm (title p), norm (brand p))) (map (\<lambda>i. df ! i) chosen))"
proof -
  have "map (\<lambda>p. (norm (title p), norm (brand p))) (map (\<lambda>i. df ! i) chosen)
        = map (dedup_key df) chosen"
    by (simp add: dedup_key_def)
  then show ?thesis using pick_with_filters_distinct_keys [OF assms] by (simp only:)
qed

lemma prune_distinct_keys:
  assumes "prune re df f products = Inr ps" "distinct (map key products)"
  shows "distinct (map key ps)"
  using assms unfolding prune_def
  by (auto simp: distinct_map_filter split: sum.splits)

lemma dedup_by_id_distinct_keys:
  assumes "distinct (map key products)"
  shows "distinct (map key (dedup_by_id products))"
proof -
  have "dedup_by_id products = first_by_id {} products"
    by (simp add: dedup_by_id_def dedup_loop_first_by_id)
  then have "subseq (map key (dedup_by_id products)) (map key products)"
    using first_by_id_subseq [of "{}" products] by (simp add: subseq_map)
  then have "map key (dedup_by_id products) \<in> set (subseqs (map key products))"
    by (simp add: set_subseqs_eq)
  then show ?thesis using assms by (rule subseqs_distinctD)
qed

text \<open>
  With \<open>top_k\<close> at least 1 and at least \<open>min_unique\<close> candidates (\<open>min_unique\<close> at least
  1) the pipeline never returns the empty list, so the keyword fallback contributes
  nothing and the products of the response have pairwise distinct dedup keys.
\<close>

lemma chat_keys_distinct:
  assumes chat: "chat rnd re df mu t = Inr ps"
    and k: "1 \<le> t_top_k t" and mu: "1 \<le> mu" "mu \<le> int (length (t_scored t))"
  shows "distinct (map (\<lambda>p. (norm (title p), norm (brand p))) ps)"
proof -
  let ?key = "\<lambda>p. (norm (title p), norm (brand p))"
  obtain products where p: "chat_products rnd re df mu t = Inr products" "ps = dedup_by_id products"
    using chat unfolding chat_def by (auto split: sum.splits)
  have "distinct (map ?key products)"
  proof (cases "if t_intent t = SMALLTALK \<and> any_filter (t_final_filters t)
                then TEXT_RECOMMEND else t_intent t")
    case IMAGE_AND_TEXT
    then have "image_and_text_products re df mu t = Inr products"
      using p(1) unfolding chat_products_def by (auto simp: Let_def split: if_splits)
    then show ?thesis
      unfolding image_and_text_products_def
      by (auto simp: Let_def split: sum.splits if_splits
          dest: rows_distinct_keys intro: prune_distinct_keys)
  next
    case IMAGE_SEARCH
    then have "image_search_products re df mu t = Inr products"
      using p(1) unfolding chat_products_def by (auto simp: Let_def split: if_splits)
    then show ?thesis
      unfolding image_search_products_def
      by (auto simp: Let_def split: sum.splits if_splits
          dest: rows_distinct_keys intro: prune_distinct_keys)
  next
    case TEXT_RECOMMEND
    then have tr: "text_recommend_products rnd re df mu t = Inr products"
      using p(1) unfolding chat_products_def by (auto simp: Let_def split: if_splits)
    then obtain chosen where
      c: "pick_with_filters re df mu (t_scored t) (t_strict_filters t) (t_top_k t) = Inr chosen"
      unfolding text_recommend_products_def by (auto simp: Let_def split: sum.splits)
    have ne: "chosen \<noteq> []" using pick_with_filters_nonempty [OF c k mu] .
    have d: "distinct (map ?key (map (\<lambda>i. df ! i) chosen))" using c by (rule rows_distinct_keys)
    show ?thesis
      using tr c ne d unfolding text_recommend_products_def
      by (auto simp: Let_def split: sum.splits if_splits intro: prune_distinct_keys)
  next
    case SMALLTALK
    then have "products = []"
      using p(1) unfolding chat_products_def by (auto simp: Let_def split: if_splits)
    then show ?thesis by simp
  qed
  then show ?thesis unfolding p(2) by (rule dedup_by_id_distinct_keys)
qed

text \<open>
  C5. Every list of the relaxation pipeline goes through \<open>add_unique\<close>
  (\<open>pick_with_filters_distinct_keys\<close>), and for a \<open>top_k\<close> of at least 1 and at least
  \<open>min_unique\<close> candidates the response has pairwise distinct dedup keys
  (\<open>chat_keys_distinct\<close>). But \<^verbatim>\<open>chat\<close> hands
  \<^verbatim>\<open>req.top_k\<close> on as it was sent: with \<^verbatim>\<open>top_k = -1\<close> the pipeline chooses nothing,
  the keyword fallback, which has no dedup rule, scores the three shirts 7, 7 and 1,
  the slice \<^verbatim>\<open>scores[:-1]\<close> keeps the first two, and the response shows the rows \<open>a\<close>
  and \<open>a2\<close>, two ids with one dedup key.
\<close>

theorem fallback_shows_same_shirt_twice:
  "pick_with_filters (\<lambda>_. None) dup_df 2 (t_scored dup_turn) (t_strict_filters dup_turn)
     (t_top_k dup_turn) = Inr []
   \<and> keyword_fallback round_double (\<lambda>_. None) dup_df (t_user_text dup_turn)
       (t_strict_filters dup_turn) (t_top_k dup_turn) = Inr [0, 1]
   \<and> chat round_double (\<lambda>_. None) dup_df 2 dup_turn = Inr [dup_df ! 0, dup_df ! 1]
   \<and> t_top_k dup_turn = - 1
   \<and> dedup_key dup_df 0 = dedup_key dup_df 1
   \<and> pid (dup_df ! 0) \<noteq> pid (dup_df ! 1)"
  by code_simp

section \<open>Properties of the keyword fallback\<close>











lemma sort_reverse_length [simp]: "length (sort_reverse key xs) = length xs"
  by (simp add: sort_reverse_def)

















section \<open>Properties of the embedding cache\<close>

lemma py_len_JList_iff: "py_len ids = Inr n \<Longrightarrow> JList xs = ids \<Longrightarrow> n = length xs"
  by auto

lemma load_cache_iff:
  "load_cache fs df_ids = Some embs \<longleftrightarrow>
     ids_file fs = Content (JList (map JStr df_ids)) \<and> emb_file fs = Content embs
     \<and> take 1 (shape embs) = [length df_ids]"
proof (cases "ids_file fs")
  case Missing
  then show ?thesis by (simp add: load_cache_def try_load_def)
next
  case Unreadable
  then show ?thesis by (simp add: load_cache_def try_load_def)
next
  case ci: (Content ids)
  show ?thesis
  proof (cases "emb_file fs")
    case Missing
    then show ?thesis using ci by (simp add: load_cache_def try_load_def)
  next
    case Unreadable
    then show ?thesis using ci by (simp add: load_cache_def try_load_def)
  next
    case ce: (Content e)
    show ?thesis
    proof (cases "ids = JList (map JStr df_ids)")
      case True
      then show ?thesis
        using ci ce by (cases "shape e") (auto simp: load_cache_def try_load_def)
    next
      case False
      then show ?thesis
        using ci ce
        by (cases "py_len ids"; cases "shape e") (auto simp: load_cache_def try_load_def)
    qed
  qed
qed

text \<open>
  C9, as the code has it. The cached matrix is used exactly when both files can be
  read, the manifest is the list of the catalog's ids (same length, same strings, same
  order) and the matrix has as many rows as the catalog. In every other state the
  exception, if any, is swallowed and the corpus is encoded afresh; the function has
  no error result.
\<close>

theorem cache_used_iff:
  "(load_cache fs (map pid df) = Some embs \<longleftrightarrow>
      ids_file fs = Content (JList (map JStr (map pid df))) \<and> emb_file fs = Content embs
      \<and> take 1 (shape embs) = [length df])
   \<and> fst (init_embeddings encode_text ew iw fs df) =
       (case load_cache fs (map pid df) of
          Some e \<Rightarrow> rows e
        | None \<Rightarrow> rows (encode_text (map compose_text df)))"
  using load_cache_iff [of fs "map pid df" embs]
  by (simp add: init_embeddings_def Let_def split: option.splits)

theorem cache_used_iff_witness:
  "load_cache good_cache (map pid make_df) = Some \<lparr>shape = [3, 2], rows = emb3\<rparr>
   \<and> fst (init_embeddings (\<lambda>corpus. \<lparr>shape = [0, 2], rows = []\<rparr>) True True good_cache make_df) = emb3"
proof -
  have i: "ids_file good_cache = Content (JList (map JStr (map pid make_df)))"
    by code_simp
  have e: "emb_file good_cache = Content \<lparr>shape = [3, 2], rows = emb3\<rparr>"
    by (simp add: good_cache_def)
  have s: "take 1 (shape \<lparr>shape = [3, 2], rows = emb3\<rparr>) = [length make_df]"
    by code_simp
  show ?thesis
    using cache_used_iff [of good_cache make_df "\<lparr>shape = [3, 2], rows = emb3\<rparr>"
        "\<lambda>corpus. \<lparr>shape = [0, 2], rows = []\<rparr>" True True] i e s
    by simp
qed

text \<open>
  A manifest that equals the id sequence does not suffice: with a cached matrix of two
  rows for a catalog of three the cache is not used.
\<close>

theorem matching_manifest_stale_matrix_is_a_miss:
  "ids_file stale_cache = Content (JList (map JStr (map pid make_df)))
   \<and> length (map pid make_df) = 3
   \<and> load_cache stale_cache (map pid make_df) = None"
  by code_simp

section \<open>Properties of the similar-items lookup\<close>

lemma no_row_with_id:
  "p \<notin> set (map pid df) \<Longrightarrow> filter (\<lambda>i. pid (df ! i) = p) [0..<length df] = []"
  by (auto simp: filter_empty_conv)

text \<open>
  C4, as the code has it. For an id that no row of the catalog carries,
  \<^verbatim>\<open>search_similar_to_id\<close> returns the empty list; nothing is raised.
\<close>

theorem similar_to_unknown_id_is_empty:
  "p \<notin> set (map pid df) \<Longrightarrow> search_similar_to_id inner rnd raw_search embeddings df p top_k = Inr []"
  by (simp add: search_similar_to_id_def no_row_with_id del: set_map)

theorem similar_to_unknown_id_is_empty_witness:
  "''nope'' \<notin> set (map pid make_df)
   \<and> search_similar_to_id dot round_double (flat_ip emb3) emb3 make_df ''nope'' 8 = Inr []"
proof -
  have h: "''nope'' \<notin> set (map pid make_df)"
    by code_simp
  show ?thesis
    using similar_to_unknown_id_is_empty [OF h, of dot round_double "flat_ip emb3" emb3 8] h by simp
qed

text \<open>The lookup of the unknown id \<^verbatim>\<open>zz\<close> is a success with no items, not a failure.\<close>

theorem similar_to_unknown_id_no_failure:
  "''zz'' \<notin> set (map pid make_df)
   \<and> search_similar_to_id dot round_double (flat_ip emb3) emb3 make_df ''zz'' 6 = Inr []
   \<and> \<not> isl (search_similar_to_id dot round_double (flat_ip emb3) emb3 make_df ''zz'' 6)"
  by code_simp

section \<open>Properties of the diversity reranker\<close>

lemma argmax_lt: "xs \<noteq> [] \<Longrightarrow> argmax xs < length xs"
  by (induction xs rule: argmax.induct) (auto simp: Let_def)

lemma argmax_max: "i < length xs \<Longrightarrow> xs ! i \<le> xs ! argmax xs"
proof (induction xs arbitrary: i rule: argmax.induct)
  case 1
  then show ?case by simp
next
  case (2 x)
  then show ?case by simp
next
  case (3 x y ys)
  let ?j = "argmax (y # ys)"
  show ?case
  proof (cases i)
    case 0
    then show ?thesis by (auto simp: Let_def)
  next
    case (Suc i')
    then have "(y # ys) ! i' \<le> (y # ys) ! ?j" using 3 by simp
    then show ?thesis using Suc by (auto simp: Let_def)
  qed
qed



lemma mmr_score_length [simp]: "length (mmr_score d sq si sel) = length sq"
  by (simp add: mmr_score_def)

lemma mmr_score_selected: "j < length sq \<Longrightarrow> j \<in> set sel \<Longrightarrow> mmr_score d sq si sel ! j = - (10 ^ 9)"
  by (simp add: mmr_score_def)

lemma mmr_score_free:
  "j < length sq \<Longrightarrow> j \<notin> set sel \<Longrightarrow>
   mmr_score d sq si sel ! j = d * sq ! j - (1 - d) * penalty si (length sq) sel j"
  by (simp add: mmr_score_def)

lemma mmr_loop_length:
  "length (mmr_loop d sq si k sel) = max (length sel) (nat (min k (int (length sq))))"
proof (induction d sq si k sel rule: mmr_loop.induct)
  case (1 d sq si k sel)
  show ?case
  proof (cases "int (length sel) < min k (int (length sq))")
    case True
    have "mmr_loop d sq si k sel = mmr_loop d sq si k (sel @ [mmr_pick d sq si sel])"
      by (subst mmr_loop.simps) (simp only: True if_True)
    then show ?thesis using 1 True by auto
  next
    case False
    have "mmr_loop d sq si k sel = sel"
      by (subst mmr_loop.simps) (simp only: False if_False)
    then show ?thesis using False by auto
  qed
qed

lemma mmr_pick_lt: "sq \<noteq> [] \<Longrightarrow> mmr_pick d sq si sel < length sq"
  unfolding mmr_pick_def using argmax_lt [of sq] argmax_lt [of "mmr_score d sq si sel"]
  by (auto simp: mmr_score_def)

lemma max_of_le: "(\<And>x. x \<in> set xs \<Longrightarrow> x \<le> b) \<Longrightarrow> 0 \<le> b \<Longrightarrow> max_of xs \<le> b"
  by (induction xs rule: max_of.induct) auto

lemma penalty_le:
  assumes "bounded_sims b sq si" "0 \<le> b" "j < length sq"
  shows "penalty si (length sq) sel j \<le> b"
  unfolding penalty_def
proof (rule max_of_le)
  fix x assume "x \<in> set (map (\<lambda>s. si ! j ! s) (filter (\<lambda>s. s \<in> set sel) [0..<length sq]))"
  then obtain s where "s < length sq" "x = si ! j ! s" by auto
  then have "\<bar>x\<bar> \<le> b" using assms(1,3) by (auto simp: bounded_sims_def list_all_iff)
  then show "x \<le> b" by linarith
qed (rule assms(2))

lemma mmr_score_free_ge:
  assumes b: "bounded_sims b sq si" and d: "0 \<le> d" "d \<le> 1"
    and j: "j < length sq" "j \<notin> set sel"
  shows "- b \<le> mmr_score d sq si sel ! j"
proof -
  have sq: "\<bar>sq ! j\<bar> \<le> b" using b j(1) by (auto simp: bounded_sims_def list_all_iff)
  then have b0: "0 \<le> b" by linarith
  have p: "penalty si (length sq) sel j \<le> b" using penalty_le [OF b b0 j(1)] .
  have "- (d * b) \<le> d * sq ! j"
  proof -
    have "d * (- b) \<le> d * sq ! j" using sq d(1) by (intro mult_left_mono) linarith+
    then show ?thesis by simp
  qed
  moreover have "(1 - d) * penalty si (length sq) sel j \<le> (1 - d) * b"
    using p d(2) by (intro mult_left_mono) linarith+
  ultimately have "- (d * b) - (1 - d) * b \<le> d * sq ! j - (1 - d) * penalty si (length sq) sel j"
    by linarith
  moreover have "- (d * b) - (1 - d) * b = - b" by (simp add: algebra_simps)
  ultimately show ?thesis using mmr_score_free [OF j] by simp
qed

lemma exists_free:
  assumes "distinct sel" "set sel \<subseteq> {0..<n}" "length sel < n"
  shows "\<exists>j<n. j \<notin> set sel"
proof (rule ccontr)
  assume "\<not> (\<exists>j<n. j \<notin> set sel)"
  then have "{0..<n} \<subseteq> set sel" by auto
  then have "set sel = {0..<n}" using assms(2) by auto
  then have "card (set sel) = n" by simp
  then show False using assms(1,3) distinct_card by fastforce
qed

lemma mmr_pick_fresh:
  assumes b: "bounded_sims b sq si" "b < 10 ^ 9" and d: "0 \<le> d" "d \<le> 1"
    and inv: "distinct sel" "set sel \<subseteq> {0..<length sq}" and room: "length sel < length sq"
  shows "mmr_pick d sq si sel \<notin> set sel"
proof (cases "sel = []")
  case True
  then show ?thesis by simp
next
  case False
  let ?ms = "mmr_score d sq si sel"
  let ?a = "argmax ?ms"
  obtain j0 where j0: "j0 < length sq" "j0 \<notin> set sel"
    using exists_free [OF inv room] by blast
  have "- b \<le> ?ms ! j0" using mmr_score_free_ge [OF b(1) d j0] .
  moreover have "?ms ! j0 \<le> ?ms ! ?a" using j0(1) by (intro argmax_max) simp
  ultimately have big: "- (10 ^ 9) < ?ms ! ?a" using b(2) by linarith
  have "sq \<noteq> []" using j0(1) by auto
  then have "length ?ms \<noteq> 0" by simp
  then have "?ms \<noteq> []" by fastforce
  then have a: "?a < length sq" using argmax_lt [of ?ms] by simp
  have "?a \<notin> set sel"
  proof
    assume "?a \<in> set sel"
    then have "?ms ! ?a = - (10 ^ 9)" using mmr_score_selected [OF a] by simp
    then show False using big by simp
  qed
  then show ?thesis using False by (simp add: mmr_pick_def)
qed

lemma mmr_loop_inv:
  assumes "bounded_sims b sq si" "b < 10 ^ 9" "0 \<le> d" "d \<le> 1"
    and "distinct sel" "set sel \<subseteq> {0..<length sq}"
  shows "distinct (mmr_loop d sq si k sel) \<and> set (mmr_loop d sq si k sel) \<subseteq> {0..<length sq}"
  using assms
proof (induction d sq si k sel rule: mmr_loop.induct)
  case (1 d sq si k sel)
  show ?case
  proof (cases "int (length sel) < min k (int (length sq))")
    case True
    then have room: "length sel < length sq" by simp
    then have ne: "sq \<noteq> []" by auto
    let ?j = "mmr_pick d sq si sel"
    have fresh: "?j \<notin> set sel"
      using mmr_pick_fresh [OF "1.prems"(1-6) room] .
    have lt: "?j < length sq" using mmr_pick_lt [OF ne] .
    have "distinct (sel @ [?j])" "set (sel @ [?j]) \<subseteq> {0..<length sq}"
      using fresh lt "1.prems"(5,6) by auto
    then have "distinct (mmr_loop d sq si k (sel @ [?j])) \<and>
               set (mmr_loop d sq si k (sel @ [?j])) \<subseteq> {0..<length sq}"
      using "1.IH" [OF True "1.prems"(1-4)] by blast
    moreover have "mmr_loop d sq si k sel = mmr_loop d sq si k (sel @ [?j])"
      by (subst mmr_loop.simps) (simp only: True if_True)
    ultimately show ?thesis by simp
  next
    case False
    have "mmr_loop d sq si k sel = sel"
      by (subst mmr_loop.simps) (simp only: False if_False)
    then show ?thesis using "1.prems" by simp
  qed
qed

lemma sims_bounded_matrix:
  assumes "sims_bounded b embeddings cands"
  shows "bounded_sims b (map snd cands) (sim_matrix embeddings (map fst cands))"
  using assms
  by (auto simp: sims_bounded_def bounded_sims_def sim_matrix_def list_all_iff)

lemma mmr_eq:
  assumes "list_all (\<lambda>i. i < length embeddings) (map fst cands)"
  shows "mmr embeddings cands top_k d =
     Inr (map (\<lambda>j. map fst cands ! j)
            (mmr_loop d (map snd cands) (sim_matrix embeddings (map fst cands)) top_k []))"
  using assms
  by (auto simp: mmr_def Let_def list_ex_iff list_all_iff)

lemma dot_Cons [simp]: "dot (x # xs) (y # ys) = x * y + dot xs ys"
  by (simp add: dot_def)

lemma dot_Nil [simp]: "dot [] [] = 0"
  by (simp add: dot_def)

lemma dot_upper: "length u = length v \<Longrightarrow> 2 * dot u v \<le> dot u u + dot v v"
proof (induction u v rule: list_induct2)
  case Nil
  then show ?case by simp
next
  case (Cons x xs y ys)
  have "0 \<le> (x - y) * (x - y)" by simp
  then have "2 * (x * y) \<le> x * x + y * y" by (simp add: algebra_simps)
  then show ?case using Cons.IH by (simp add: algebra_simps)
qed

lemma dot_lower: "length u = length v \<Longrightarrow> - (dot u u + dot v v) \<le> 2 * dot u v"
proof (induction u v rule: list_induct2)
  case Nil
  then show ?case by simp
next
  case (Cons x xs y ys)
  have "0 \<le> (x + y) * (x + y)" by simp
  then have "- (x * x + y * y) \<le> 2 * (x * y)" by (simp add: algebra_simps)
  then show ?case using Cons.IH by (simp add: algebra_simps)
qed

lemma unit_norm_dot:
  assumes "length u = length v" "dot u u = 1" "dot v v = 1"
  shows "\<bar>dot u v\<bar> \<le> 1"
  using dot_upper [OF assms(1)] dot_lower [OF assms(1)] assms(2,3) by simp

lemma unit_norm_sims_bounded:
  assumes "list_all (\<lambda>(i, s). \<bar>s\<bar> \<le> 1 \<and> length (embeddings ! i) = d
                         \<and> dot (embeddings ! i) (embeddings ! i) = 1) cands"
  shows "sims_bounded 1 embeddings cands"
proof -
  have u: "length (embeddings ! i) = d" "dot (embeddings ! i) (embeddings ! i) = 1"
    if "i \<in> set (map fst cands)" for i
    using assms that by (auto simp: list_all_iff)
  have "\<bar>dot (embeddings ! i) (embeddings ! j)\<bar> \<le> 1"
    if "i \<in> set (map fst cands)" "j \<in> set (map fst cands)" for i j
    by (rule unit_norm_dot) (simp_all add: u [OF that(1)] u [OF that(2)])
  moreover have "\<bar>s\<bar> \<le> 1" if "s \<in> set (map snd cands)" for s
    using assms that by (auto simp: list_all_iff)
  ultimately show ?thesis
    unfolding sims_bounded_def list_all_iff by blast
qed

lemma uniq_loop_unseen: "(i, s) \<in> set (uniq_loop seen xs) \<Longrightarrow> i \<notin> seen"
  by (induction seen xs rule: uniq_loop.induct) (auto split: if_splits)

lemma uniq_loop_distinct: "distinct (map fst (uniq_loop seen xs))"
  by (induction seen xs rule: uniq_loop.induct) (auto dest: uniq_loop_unseen)

lemma search_candidates_distinct: "distinct (map fst (search_candidates res))"
  unfolding search_candidates_def by (rule uniq_loop_distinct)

text \<open>
  C6. For candidates with pairwise distinct positions inside the matrix, similarities
  bounded by some \<open>b < 10^9\<close> (1 for cosine similarities) and a diversity weight in
  \<open>[0, 1]\<close>, \<^verbatim>\<open>_mmr\<close> returns \<open>min top_k (number of candidates)\<close> positions (none for
  a negative \<open>top_k\<close>), pairwise distinct, each one a candidate position.
\<close>

theorem mmr_cardinality:
  assumes rng: "list_all (\<lambda>i. i < length embeddings) (map fst cands)"
    and dis: "distinct (map fst cands)"
    and bnd: "sims_bounded b embeddings cands" "b < 10 ^ 9"
    and d: "0 \<le> diversity" "diversity \<le> 1"
  shows "\<exists>picks. mmr embeddings cands top_k diversity = Inr picks
           \<and> length picks = nat (min top_k (int (length cands)))
           \<and> distinct picks
           \<and> set picks \<subseteq> set (map fst cands)"
proof -
  let ?idxs = "map fst cands"
  let ?sq = "map snd cands"
  let ?si = "sim_matrix embeddings ?idxs"
  let ?sel = "mmr_loop diversity ?sq ?si top_k []"
  let ?picks = "map (\<lambda>j. ?idxs ! j) ?sel"
  have eq: "mmr embeddings cands top_k diversity = Inr ?picks"
    using rng by (rule mmr_eq)
  have len: "length ?picks = nat (min top_k (int (length cands)))"
    by (simp add: mmr_loop_length)
  have inv: "distinct ?sel \<and> set ?sel \<subseteq> {0..<length ?sq}"
    by (rule mmr_loop_inv [OF sims_bounded_matrix [OF bnd(1)] bnd(2) d]) simp_all
  then have sub: "set ?sel \<subseteq> {0..<length ?idxs}" by simp
  have "inj_on (\<lambda>j. ?idxs ! j) (set ?sel)"
  proof (rule inj_onI)
    fix x y assume xy: "x \<in> set ?sel" "y \<in> set ?sel" "?idxs ! x = ?idxs ! y"
    have "x < length ?idxs" "y < length ?idxs" using xy(1,2) sub by auto
    then show "x = y"
      using xy(3) nth_eq_iff_index_eq [OF dis] by blast
  qed
  then have dp: "distinct ?picks" using inv by (simp add: distinct_map)
  have "set ?picks \<subseteq> set ?idxs"
  proof
    fix p assume "p \<in> set ?picks"
    then obtain j where j: "j \<in> set ?sel" "p = ?idxs ! j" by auto
    then have "j < length ?idxs" using sub by auto
    then have "?idxs ! j \<in> set ?idxs" by (rule nth_mem)
    then show "p \<in> set ?idxs" using j(2) by blast
  qed
  then show ?thesis using eq len dp by blast
qed

theorem mmr_cardinality_witness:
  "mmr emb3 [(0, 1), (1, 0.6), (2, 0)] 2 0.3 = Inr [0, 2]
   \<and> (\<exists>picks. mmr emb3 [(0, 1), (1, 0.6), (2, 0)] 2 0.3 = Inr picks
          \<and> length picks = 2 \<and> distinct picks \<and> set picks \<subseteq> {0, 1, 2})"
proof -
  let ?cands = "[(0, 1), (1, 0.6), (2, 0)] :: (nat \<times> real) list"
  have rng: "list_all (\<lambda>i. i < length emb3) (map fst ?cands)"
    by code_simp
  have dis: "distinct (map fst ?cands)"
    by simp
  have bnd: "sims_bounded 1 emb3 ?cands"
    by code_simp
  have e: "mmr emb3 ?cands 2 0.3 = Inr [0, 2]"
    by code_simp
  show ?thesis
    using mmr_cardinality [OF rng dis bnd, of "0.3" 2] e by simp
qed

section \<open>Python's descending sort is the stable sort by the negated key\<close>



lemma sorted_neg_rev:
  fixes f :: "'a \<Rightarrow> real"
  shows "sorted (map f ys) \<Longrightarrow> sorted (map (\<lambda>x. - f x) (rev ys))"
  by (induction ys) (auto simp: sorted_append)

lemma sort_reverse_eq: "sort_reverse key xs = sort_key (\<lambda>x. - key x) xs"
proof (rule sym, rule properties_for_sort_key)
  show "mset (sort_reverse key xs) = mset xs"
    by (simp add: sort_reverse_def)
  show "sorted (map (\<lambda>x. - key x) (sort_reverse key xs))"
    unfolding sort_reverse_def by (rule sorted_neg_rev) simp
  fix k assume "k \<in> set (sort_reverse key xs)"
  have P: "(\<lambda>x. - key k = - key x) = (\<lambda>x. key x = key k)"
    by auto
  have "filter (\<lambda>x. key x = key k) (sort_reverse key xs)
        = rev (filter (\<lambda>x. key x = key k) (sort_key key (rev xs)))"
    by (simp add: sort_reverse_def rev_filter)
  also have "\<dots> = rev (filter (\<lambda>x. key x = key k) (rev xs))"
    by (simp only: sort_key_stable)
  also have "\<dots> = filter (\<lambda>x. key x = key k) xs"
    by (simp add: rev_filter)
  finally show "filter (\<lambda>x. - key k = - key x) (sort_reverse key xs)
        = filter (\<lambda>x. - key k = - key x) xs"
    unfolding P .
qed


section \<open>The reranker at diversity 1 and at diversity 0\<close>


















section \<open>Properties of the attribute booster\<close>

lemma boost_spec: "boost rnd (Some f) r base = adjusted_score_spec rnd f r base"
  by (simp add: boost_def adjusted_score_spec_def bonuses_def Let_def split: option.splits)

lemma boost_None: "boost rnd None r base = base"
  by (simp add: boost_def)

lemma mmr_Inr_length:
  assumes "mmr embeddings cands top_k d = Inr picks"
  shows "length picks = nat (min top_k (int (length cands)))"
  using assms
  by (auto simp: mmr_def Let_def mmr_loop_length split: if_splits)

lemma py_take_all:
  assumes "length xs = nat (min k n)"
  shows "py_take k xs = xs"
proof (cases "0 \<le> k")
  case True
  then have "length xs \<le> nat k" using assms by auto
  then show ?thesis using True by (simp add: py_take_def)
next
  case False
  then have "xs = []" using assms by auto
  then show ?thesis by (simp add: py_take_def)
qed

lemma sort_reverse_descending: "sorted_wrt (\<lambda>a b. key b \<le> key a) (sort_reverse key xs)"
proof -
  have "sorted (map (\<lambda>x. - key x) (sort_reverse key xs))"
    unfolding sort_reverse_eq by (rule sorted_sort_key)
  then show ?thesis by (simp add: sorted_wrt_map)
qed

lemma sort_reverse_stable:
  "filter (\<lambda>x. key x = c) (sort_reverse key xs) = filter (\<lambda>x. key x = c) xs"
proof -
  have "(\<lambda>x. key x = c) = (\<lambda>x. - key x = - c)" by auto
  then show ?thesis
    unfolding sort_reverse_eq using sort_key_stable [of "\<lambda>x. - key x" "- c" xs] by simp
qed

lemma sort_reverse_mset: "mset (sort_reverse key xs) = mset xs"
  by (simp add: sort_reverse_def)

lemma search_eq:
  assumes raw: "raw_search q (max (top_k * 5) 20) = Inr res"
    and ne: "search_candidates res \<noteq> []"
    and picks: "mmr embeddings (search_candidates res) top_k 0.3 = Inr pick_idxs"
    and rng: "list_all (\<lambda>idx. idx < length df) pick_idxs"
  shows "search inner rnd raw_search embeddings df q top_k filters
         = Inr (sort_reverse snd
                 (map (\<lambda>idx. (idx, boost rnd filters (df ! idx) (inner q (embeddings ! idx)))) pick_idxs))"
proof -
  let ?out = "map (\<lambda>idx. (idx, boost rnd filters (df ! idx) (inner q (embeddings ! idx)))) pick_idxs"
  have "length (sort_reverse snd ?out) = nat (min top_k (int (length (search_candidates res))))"
    using mmr_Inr_length [OF picks] by (simp add: sort_reverse_def)
  then have "py_take top_k (sort_reverse snd ?out) = sort_reverse snd ?out"
    by (rule py_take_all)
  moreover have "\<not> list_ex (\<lambda>idx. idx \<ge> length df) pick_idxs"
    using rng by (auto simp: list_ex_iff list_all_iff)
  ultimately show ?thesis
    using raw ne picks by (simp add: search_def Let_def)
qed

text \<open>
  C8. When the index answers, some candidate is left and \<^verbatim>\<open>_mmr\<close> picks positions of
  the catalog, \<^verbatim>\<open>_search\<close> returns the picked positions, each with the score
  \<open>adjusted_score_spec\<close> (the inner product of the query and the row's vector plus the
  bonuses of the constraint fields that are set and matched, each addition a float
  addition, in the order brand, category, tag, budget; \<open>boost_spec\<close> is the agreement
  of the code's increments with it), in descending order of that score, rows of equal
  score in the order \<^verbatim>\<open>_mmr\<close> picked them. The final slice \<^verbatim>\<open>out[:top_k]\<close> cuts
  nothing. This holds for every rounding \<open>rnd\<close> of the float operations and every
  inner product \<open>inner\<close>.
\<close>

theorem boost_and_resort:
  assumes raw: "raw_search q (max (top_k * 5) 20) = Inr res"
    and ne: "search_candidates res \<noteq> []"
    and picks: "mmr embeddings (search_candidates res) top_k 0.3 = Inr pick_idxs"
    and rng: "list_all (\<lambda>idx. idx < length df) pick_idxs"
  shows "\<exists>out. search inner rnd raw_search embeddings df q top_k (Some f) = Inr out
           \<and> mset out
               = mset (map (\<lambda>idx. (idx, adjusted_score_spec rnd f (df ! idx) (inner q (embeddings ! idx))))
                        pick_idxs)
           \<and> sorted_wrt (\<lambda>a b. snd b \<le> snd a) out
           \<and> (\<forall>c. filter (\<lambda>x. snd x = c) out
                    = filter (\<lambda>x. snd x = c)
                        (map (\<lambda>idx. (idx, adjusted_score_spec rnd f (df ! idx) (inner q (embeddings ! idx))))
                           pick_idxs))"
proof -
  let ?adj = "map (\<lambda>idx. (idx, adjusted_score_spec rnd f (df ! idx) (inner q (embeddings ! idx)))) pick_idxs"
  have "search inner rnd raw_search embeddings df q top_k (Some f)
        = Inr (sort_reverse snd
                (map (\<lambda>idx. (idx, boost rnd (Some f) (df ! idx) (inner q (embeddings ! idx)))) pick_idxs))"
    using raw ne picks rng by (rule search_eq)
  then have "search inner rnd raw_search embeddings df q top_k (Some f) = Inr (sort_reverse snd ?adj)"
    by (simp add: boost_spec)
  then show ?thesis
    using sort_reverse_mset [of snd ?adj] sort_reverse_descending [of snd ?adj]
      sort_reverse_stable [of snd _ ?adj]
    by blast
qed

text \<open>
  Two rows in double precision: \<open>x\<close> (similarity 0.25, price 22) and \<open>y\<close> (similarity
  0.21875, price 23, category \<^verbatim>\<open>cap\<close>) under the constraints category \<^verbatim>\<open>cap\<close> and
  at most 24. The two adjusted scores are the same real number, 0.2775, when computed
  without rounding; the doubles differ, and \<open>y\<close> comes first.
\<close>

theorem boost_and_resort_witness:
  "flat_ip budget_emb [1, 0] (max (2 * 5) 20) = Inr [(Some 0, 1 / 4), (Some 1, 7 / 32)]
   \<and> mmr budget_emb (search_candidates [(Some 0, 1 / 4), (Some 1, 7 / 32)]) 2 0.3 = Inr [0, 1]
   \<and> search dot round_double (flat_ip budget_emb) budget_emb budget_df [1, 0] 2 (Some budget_filters)
       = Inr [(1, 4998995586381251 / 18014398509481984), (0, 2499497793190625 / 9007199254740992)]
   \<and> sorted_wrt (\<lambda>a b. snd b \<le> snd a)
       [(1::nat, 4998995586381251 / 18014398509481984 :: real), (0, 2499497793190625 / 9007199254740992)]"
proof -
  let ?res = "[(Some 0, 1 / 4), (Some 1, 7 / 32)] :: (nat option \<times> real) list"
  have raw: "flat_ip budget_emb [1, 0] (max (2 * 5) 20) = Inr ?res"
    by code_simp
  have ne: "search_candidates ?res \<noteq> []"
    by code_simp
  have picks: "mmr budget_emb (search_candidates ?res) 2 0.3 = Inr [0, 1]"
    by code_simp
  have rng: "list_all (\<lambda>idx. idx < length budget_df) [0, 1]"
    by code_simp
  have e: "search dot round_double (flat_ip budget_emb) budget_emb budget_df [1, 0] 2 (Some budget_filters)
       = Inr [(1, 4998995586381251 / 18014398509481984), (0, 2499497793190625 / 9007199254740992)]"
    by code_simp
  obtain out where out:
      "search dot round_double (flat_ip budget_emb) budget_emb budget_df [1, 0] 2 (Some budget_filters) = Inr out"
      "sorted_wrt (\<lambda>a b. snd b \<le> snd a) out"
    using boost_and_resort [where raw_search = "flat_ip budget_emb" and q = "[1, 0]" and top_k = 2
        and embeddings = budget_emb and df = budget_df and f = budget_filters and inner = dot
        and rnd = round_double, OF raw ne picks rng]
    by blast
  have "out = [(1, 4998995586381251 / 18014398509481984), (0, 2499497793190625 / 9007199254740992)]"
    using out(1) e by simp
  then have "sorted_wrt (\<lambda>a b. snd b \<le> snd a)
       [(1::nat, 4998995586381251 / 18014398509481984 :: real), (0, 2499497793190625 / 9007199254740992)]"
    using out(2) by (simp only:)
  then show ?thesis using raw picks e by blast
qed

end
